theory Spec2Isabelle
  imports Main "HOL-Library.Sublist"
begin

section \<open>Start-up of server.js\<close>

text \<open>
  The top level of \<^verbatim>\<open>server.js\<close> runs once, synchronously: it loads the
  environment, builds the application, starts one connection attempt
  (\<^verbatim>\<open>mongoose.connect\<close>) and calls \<^verbatim>\<open>app.listen\<close>. Both calls are asynchronous
  library calls: each takes a callback that the event loop runs later. The
  model records what the script does as a list of effects, and takes the later
  completions as a list of events delivered by the environment.

  The libraries are those the calls are written for: Mongoose 5, whose
  \<^verbatim>\<open>connect(uri, options, callback)\<close> throws at once when \<open>uri\<close> is not a string,
  and otherwise starts one attempt and runs the callback when the attempt
  settles, with the error as its argument when it failed; and Node's
  \<^verbatim>\<open>listen(port, callback)\<close>, which throws at once on a port number above
  65535, and otherwise binds and runs the callback once bound. An exception
  thrown at the top level is not caught by the script: the process ends, and
  nothing the script has not yet done happens.
\<close>

type_synonym env = "string \<rightharpoonup> string"

text \<open>\<^verbatim>\<open>require('dotenv').config()\<close>: variables of the \<^verbatim>\<open>.env\<close> file are added to
  \<^verbatim>\<open>process.env\<close>; a variable the process already has is kept.\<close>

definition dotenv_config :: "env \<Rightarrow> env \<Rightarrow> env" where
  "dotenv_config dotfile penv = dotfile ++ penv"

text \<open>A JavaScript value that is a string or a number.\<close>

datatype jsval = JStr string | JNum nat

fun digits :: "nat \<Rightarrow> string" where
  "digits n =
     (if n < 10 then [''0123456789'' ! n]
      else digits (n div 10) @ [''0123456789'' ! (n mod 10)])"

declare digits.simps [simp del]

fun js_to_string :: "jsval \<Rightarrow> string" where
  "js_to_string (JStr s) = s"
| "js_to_string (JNum n) = digits n"

text \<open>\<^verbatim>\<open>const PORT = process.env.PORT || 5000\<close>: an absent variable is
  \<^verbatim>\<open>undefined\<close> and the empty string is falsy, so both give the number 5000;
  any other string is truthy and is the value of \<^verbatim>\<open>PORT\<close>.\<close>

definition PORT :: "env \<Rightarrow> jsval" where
  "PORT e = (case e ''PORT'' of
               None \<Rightarrow> JNum 5000
             | Some v \<Rightarrow> if v = [] then JNum 5000 else JStr v)"

text \<open>The number a string of decimal digits denotes; \<open>None\<close> for every other
  string.\<close>

definition digit_of :: "char \<Rightarrow> nat option" where
  "digit_of x = map_of (zip ''0123456789'' [0, 1, 2, 3, 4, 5, 6, 7, 8, 9]) x"

fun decimal_from :: "nat \<Rightarrow> string \<Rightarrow> nat option" where
  "decimal_from acc [] = Some acc"
| "decimal_from acc (x # xs) =
     (case digit_of x of None \<Rightarrow> None | Some k \<Rightarrow> decimal_from (10 * acc + k) xs)"

definition decimal :: "string \<Rightarrow> nat option" where
  "decimal v = (if v = [] then None else decimal_from 0 v)"

text \<open>What \<^verbatim>\<open>app.listen\<close> does with its first argument. A number, or a string of
  decimal digits, is a port: the listener is bound to it when it is at most
  65535 (port 0 stands for a free port of the system's choice), and the call
  throws otherwise. Any other string is read by
  \<^verbatim>\<open>Number()\<close>, as a port when it denotes a number and as the name of a pipe
  when it does not; that reading is not modelled, and the call is taken as
  made.\<close>

datatype listen_outcome = Bound nat | BadPort | NotDecimal string

fun app_listen :: "jsval \<Rightarrow> listen_outcome" where
  "app_listen (JNum n) = (if n \<le> 65535 then Bound n else BadPort)"
| "app_listen (JStr v) =
     (case decimal v of
        None \<Rightarrow> NotDecimal v
      | Some n \<Rightarrow> if n \<le> 65535 then Bound n else BadPort)"

datatype exn = MongooseError | SocketBadPort

text \<open>An effect is a call that returned, a line on the console, or the
  exception that ended the process.\<close>

datatype effect =
    MongooseConnect "string option"
  | AppListen jsval
  | ConsoleLog string
  | Uncaught exn

text \<open>A connection attempt settles with no error or with an error (its text);
  the listener becomes ready.\<close>

datatype event = ConnectSettled "string option" | Listening

text \<open>The callback of \<^verbatim>\<open>mongoose.connect\<close> is \<^verbatim>\<open>() => { console.log('Connected to
  database') }\<close>: it declares no parameter, so the error the library passes is
  dropped.\<close>

definition connect_callback :: "string option \<Rightarrow> effect list" where
  "connect_callback err = [ConsoleLog ''Connected to database'']"

definition listen_callback :: "jsval \<Rightarrow> effect list" where
  "listen_callback p = [ConsoleLog (''Server is running on port '' @ js_to_string p)]"

text \<open>The synchronous part of the script, in source order: the connection
  attempt of line 33, then \<^verbatim>\<open>app.listen\<close> of line 55. With \<^verbatim>\<open>MONGO_URI\<close> absent
  the first call throws and line 55 is never reached.\<close>

definition server_js :: "env \<Rightarrow> effect list" where
  "server_js e =
     (case e ''MONGO_URI'' of
        None \<Rightarrow> [Uncaught MongooseError]
      | Some u \<Rightarrow>
          MongooseConnect (Some u) #
          (if app_listen (PORT e) = BadPort then [Uncaught SocketBadPort]
           else [AppListen (PORT e)]))"

definition aborted :: "env \<Rightarrow> bool" where
  "aborted e = (e ''MONGO_URI'' = None \<or> app_listen (PORT e) = BadPort)"

fun on_event :: "env \<Rightarrow> event \<Rightarrow> effect list" where
  "on_event e (ConnectSettled err) = connect_callback err"
| "on_event e Listening = listen_callback (PORT e)"

text \<open>A run of the process: the synchronous part, then, unless it ended in
  an exception, the callbacks of the events in the order they arrive.\<close>

definition run :: "env \<Rightarrow> env \<Rightarrow> event list \<Rightarrow> effect list" where
  "run dotfile penv evs =
     (let e = dotenv_config dotfile penv
      in if aborted e then server_js e
         else server_js e @ concat (map (on_event e) evs))"

fun is_connect :: "effect \<Rightarrow> bool" where
  "is_connect (MongooseConnect u) = True"
| "is_connect x = False"

fun is_listen :: "effect \<Rightarrow> bool" where
  "is_listen (AppListen p) = True"
| "is_listen x = False"


section \<open>JSON texts\<close>

text \<open>
  \<^verbatim>\<open>express.json()\<close> hands the body to \<^verbatim>\<open>JSON.parse\<close>. The pipeline below takes
  the parser as a parameter; \<open>JSON_text\<close> is a recogniser of the JSON grammar
  (RFC 8259) that instantiates it on concrete bodies: a scanner that reads
  one character at a time, then a stack automaton over the tokens.
\<close>

datatype tok = LBrace | RBrace | LBrack | RBrack | Colon | Comma | Str | Atom

datatype nstate = NMinus | NZero | NInt | NDot | NFrac | NExp | NSign | NExpDig

datatype mode = Top | InStr | InEsc | InHex nat | InLit string | InNum nstate

definition is_ws :: "char \<Rightarrow> bool" where
  "is_ws c = (c \<in> set [CHR 0x20, CHR 0x09, CHR 0x0A, CHR 0x0D])"

definition is_digit :: "char \<Rightarrow> bool" where
  "is_digit c = (c \<in> set ''0123456789'')"

definition is_hex :: "char \<Rightarrow> bool" where
  "is_hex c = (c \<in> set ''0123456789abcdefABCDEF'')"

definition is_exp :: "char \<Rightarrow> bool" where
  "is_exp c = (c = CHR ''e'' \<or> c = CHR ''E'')"

definition start :: "char \<Rightarrow> (tok list \<times> mode) option" where
  "start c =
     (if is_ws c then Some ([], Top)
      else if c = CHR ''{'' then Some ([LBrace], Top)
      else if c = CHR ''}'' then Some ([RBrace], Top)
      else if c = CHR ''['' then Some ([LBrack], Top)
      else if c = CHR '']'' then Some ([RBrack], Top)
      else if c = CHR '':'' then Some ([Colon], Top)
      else if c = CHR '','' then Some ([Comma], Top)
      else if c = CHR 0x22 then Some ([], InStr)
      else if c = CHR ''-'' then Some ([], InNum NMinus)
      else if c = CHR ''0'' then Some ([], InNum NZero)
      else if is_digit c then Some ([], InNum NInt)
      else if c = CHR ''t'' then Some ([], InLit ''rue'')
      else if c = CHR ''f'' then Some ([], InLit ''alse'')
      else if c = CHR ''n'' then Some ([], InLit ''ull'')
      else None)"

fun num_step :: "nstate \<Rightarrow> char \<Rightarrow> nstate option" where
  "num_step NMinus c =
     (if c = CHR ''0'' then Some NZero else if is_digit c then Some NInt else None)"
| "num_step NZero c =
     (if c = CHR ''.'' then Some NDot else if is_exp c then Some NExp else None)"
| "num_step NInt c =
     (if is_digit c then Some NInt else if c = CHR ''.'' then Some NDot
      else if is_exp c then Some NExp else None)"
| "num_step NDot c = (if is_digit c then Some NFrac else None)"
| "num_step NFrac c =
     (if is_digit c then Some NFrac else if is_exp c then Some NExp else None)"
| "num_step NExp c =
     (if c = CHR ''+'' \<or> c = CHR ''-'' then Some NSign
      else if is_digit c then Some NExpDig else None)"
| "num_step NSign c = (if is_digit c then Some NExpDig else None)"
| "num_step NExpDig c = (if is_digit c then Some NExpDig else None)"

definition num_final :: "nstate \<Rightarrow> bool" where
  "num_final s = (s = NZero \<or> s = NInt \<or> s = NFrac \<or> s = NExpDig)"

fun scan_step :: "mode \<Rightarrow> char \<Rightarrow> (tok list \<times> mode) option" where
  "scan_step Top c = start c"
| "scan_step InStr c =
     (if c = CHR 0x22 then Some ([Str], Top)
      else if c = CHR 0x5C then Some ([], InEsc)
      else if (of_char c :: nat) < 32 then None
      else Some ([], InStr))"
| "scan_step InEsc c =
     (if c \<in> set [CHR 0x22, CHR 0x5C, CHR ''/'', CHR ''b'', CHR ''f'', CHR ''n'',
                    CHR ''r'', CHR ''t'']
      then Some ([], InStr)
      else if c = CHR ''u'' then Some ([], InHex 4) else None)"
| "scan_step (InHex n) c =
     (if is_hex c then Some ([], if n \<le> 1 then InStr else InHex (n - 1)) else None)"
| "scan_step (InLit l) c =
     (case l of
        [] \<Rightarrow> None
      | x # r \<Rightarrow>
          if c \<noteq> x then None
          else if r = [] then Some ([Atom], Top) else Some ([], InLit r))"
| "scan_step (InNum s) c =
     (case num_step s c of
        Some s' \<Rightarrow> Some ([], InNum s')
      | None \<Rightarrow>
          if num_final s then map_option (\<lambda>(ts, m). (Atom # ts, m)) (start c)
          else None)"

fun scan :: "mode \<Rightarrow> string \<Rightarrow> tok list option" where
  "scan Top [] = Some []"
| "scan (InNum s) [] = (if num_final s then Some [Atom] else None)"
| "scan m [] = None"
| "scan m (c # cs) =
     (case scan_step m c of
        None \<Rightarrow> None
      | Some (ts, m') \<Rightarrow> map_option (\<lambda>us. ts @ us) (scan m' cs))"

datatype frame = InObj | InArr

datatype expect = Value | ValueOrEnd | KeyOrEnd | Key | KColon | After

fun open_value :: "frame list \<Rightarrow> tok \<Rightarrow> (expect \<times> frame list) option" where
  "open_value st Str = Some (After, st)"
| "open_value st Atom = Some (After, st)"
| "open_value st LBrace = Some (KeyOrEnd, InObj # st)"
| "open_value st LBrack = Some (ValueOrEnd, InArr # st)"
| "open_value st t = None"

fun close_frame :: "frame list \<Rightarrow> tok \<Rightarrow> (expect \<times> frame list) option" where
  "close_frame (InObj # st) RBrace = Some (After, st)"
| "close_frame (InArr # st) RBrack = Some (After, st)"
| "close_frame st t = None"

fun parse_step :: "expect \<Rightarrow> frame list \<Rightarrow> tok \<Rightarrow> (expect \<times> frame list) option" where
  "parse_step Value st t = open_value st t"
| "parse_step ValueOrEnd st t =
     (if t = RBrack then close_frame st t else open_value st t)"
| "parse_step KeyOrEnd st t =
     (if t = Str then Some (KColon, st) else if t = RBrace then close_frame st t else None)"
| "parse_step Key st t = (if t = Str then Some (KColon, st) else None)"
| "parse_step KColon st t = (if t = Colon then Some (Value, st) else None)"
| "parse_step After st t =
     (if t = Comma then
        (case st of [] \<Rightarrow> None | InObj # r \<Rightarrow> Some (Key, st) | InArr # r \<Rightarrow> Some (Value, st))
      else close_frame st t)"

fun accept :: "expect \<Rightarrow> frame list \<Rightarrow> tok list \<Rightarrow> bool" where
  "accept e st [] = (e = After \<and> st = [])"
| "accept e st (t # ts) =
     (case parse_step e st t of None \<Rightarrow> False | Some (e', st') \<Rightarrow> accept e' st' ts)"

definition JSON_text :: "string \<Rightarrow> bool" where
  "JSON_text b = (case scan Top b of None \<Rightarrow> False | Some ts \<Rightarrow> accept Value [] ts)"

section \<open>Requests, responses and the shared state\<close>

datatype verb = GET | HEAD | POST | PUT | PATCH | DELETE | OPTIONS

fun verb_name :: "verb \<Rightarrow> string" where
  "verb_name GET = ''GET''"
| "verb_name HEAD = ''HEAD''"
| "verb_name POST = ''POST''"
| "verb_name PUT = ''PUT''"
| "verb_name PATCH = ''PATCH''"
| "verb_name DELETE = ''DELETE''"
| "verb_name OPTIONS = ''OPTIONS''"

text \<open>The media type of a request as the body parsers classify it.\<close>

datatype ctype = AppJson | FormUrlencoded | OtherType

text \<open>An inbound request: \<open>rbody\<close> is \<open>None\<close> when the request announces no
  body; \<open>rip\<close> is \<^verbatim>\<open>req.ip\<close>, the client identifier of the rate limiter; \<open>rtime\<close>
  is the arrival time in milliseconds.\<close>

record request =
  rmethod :: verb
  rpath :: string
  rip :: string
  rctype :: "ctype option"
  rbody :: "string option"
  rtime :: nat

datatype hval = HStr string | HNum nat

datatype parsed = Unparsed | EmptyObj | JsonVal string | FormVal string

text \<open>The pair \<^verbatim>\<open>(req, res)\<close> that every middleware receives: the request, what
  the parsers stored on it, and the response under construction.\<close>

record ctx =
  req :: request
  req_body :: parsed
  req_body_read :: bool
  statusCode :: nat
  res_headers :: "string \<rightharpoonup> hval"
  on_finished :: bool

text \<open>A response as the handlers produce it: \<open>content\<close> is the body handed to
  \<^verbatim>\<open>res.send\<close> or \<^verbatim>\<open>res.end\<close> (the transport leaves it out of the answer to a
  \<^verbatim>\<open>HEAD\<close> request).\<close>

record response =
  status :: nat
  headers :: "string \<rightharpoonup> hval"
  content :: string

text \<open>A failure handed to \<^verbatim>\<open>next(err)\<close> or thrown: the two failures of the body
  parsers, with their HTTP status attached, or one raised by a route handler.\<close>

datatype error = ParseFailed | TooLarge | TooManyParameters | Raised string

fun err_status :: "error \<Rightarrow> nat option" where
  "err_status ParseFailed = Some 400"
| "err_status TooLarge = Some 413"
| "err_status TooManyParameters = Some 413"
| "err_status (Raised x) = None"

text \<open>What a middleware does with a request: \<^verbatim>\<open>next()\<close>, \<^verbatim>\<open>next(err)\<close> (or a
  throw), or ending the response with a body.\<close>

datatype outcome = Next ctx | NextErr error ctx | Send ctx string

fun ctx_of :: "outcome \<Rightarrow> ctx" where
  "ctx_of (Next c) = c"
| "ctx_of (NextErr e c) = c"
| "ctx_of (Send c b) = c"

datatype logline = AccessLine verb string nat | ErrorStack error

text \<open>The state shared by all requests: the counters of the rate limiter's
  memory store with the end of the current window, and the console.\<close>

record sstate =
  hits :: "string \<rightharpoonup> nat"
  resetTime :: nat
  console :: "logline list"

text \<open>What the source does not contain: the headers \<^verbatim>\<open>helmet()\<close> sets, the
  parser \<^verbatim>\<open>JSON.parse\<close>, and the two routers of \<^verbatim>\<open>./routes\<close>.\<close>

record deps =
  helmet_headers :: "(string \<times> hval) list"
  JSON_parse :: "string \<Rightarrow> bool"
  customersRouter :: "ctx \<Rightarrow> outcome"
  analyticsRouter :: "ctx \<Rightarrow> outcome"

section \<open>The middleware of server.js\<close>

text \<open>\<^verbatim>\<open>app.use(helmet())\<close>: removes the framework's \<^verbatim>\<open>X-Powered-By\<close>, sets its
  headers on the response and continues.\<close>

definition helmet :: "deps \<Rightarrow> ctx \<Rightarrow> outcome" where
  "helmet d c =
     Next (c\<lparr>res_headers :=
              (res_headers c |` (- {''x-powered-by''})) ++ map_of (helmet_headers d)\<rparr>)"

text \<open>\<^verbatim>\<open>app.use(cors())\<close> with the default options: every origin is allowed; an
  \<^verbatim>\<open>OPTIONS\<close> request is a preflight, answered at once with 204.\<close>

definition cors :: "ctx \<Rightarrow> outcome" where
  "cors c =
     (if rmethod (req c) = OPTIONS then
        Send (c\<lparr>statusCode := 204,
                res_headers := (res_headers c)
                  (''access-control-allow-origin'' \<mapsto> HStr ''*'',
                   ''access-control-allow-methods'' \<mapsto> HStr ''GET,HEAD,PUT,PATCH,POST,DELETE'',
                   ''vary'' \<mapsto> HStr ''Access-Control-Request-Headers'',
                   ''content-length'' \<mapsto> HStr ''0'')\<rparr>) []
      else Next (c\<lparr>res_headers := (res_headers c)
                  (''access-control-allow-origin'' \<mapsto> HStr ''*'')\<rparr>))"

text \<open>\<^verbatim>\<open>app.use(morgan('common'))\<close>: registers the access log line, written when
  the response is finished, and continues.\<close>

definition morgan :: "ctx \<Rightarrow> outcome" where
  "morgan c = Next (c\<lparr>on_finished := True\<rparr>)"

text \<open>\<^verbatim>\<open>app.use(express.json())\<close>: strict mode, limit 100kb. A body that does not
  parse is not answered here: the parser calls \<^verbatim>\<open>next(err)\<close> with status 400
  attached to the error. An empty text is taken as the empty object without
  parsing. (Failures of reading the body from the connection, such as an
  unsupported charset or encoding, are left out.)\<close>

text \<open>The body is decoded as UTF-8 text before it is parsed, and the decoder
  drops a leading byte order mark.\<close>

definition strip_bom :: "string \<Rightarrow> string" where
  "strip_bom b = (if take 3 b = [CHR 0xEF, CHR 0xBB, CHR 0xBF] then drop 3 b else b)"

definition strict_first :: "string \<Rightarrow> bool" where
  "strict_first b =
     (case dropWhile is_ws b of [] \<Rightarrow> False | c # cs \<Rightarrow> c = CHR ''{'' \<or> c = CHR ''['')"

definition body_limit :: nat where
  "body_limit = 100 * 1024"

definition default_body :: "ctx \<Rightarrow> ctx" where
  "default_body c = (if req_body c = Unparsed then c\<lparr>req_body := EmptyObj\<rparr> else c)"

definition express_json :: "deps \<Rightarrow> ctx \<Rightarrow> outcome" where
  "express_json d c =
     (if req_body_read c then Next c
      else
        let c1 = default_body c in
        case rbody (req c) of
          None \<Rightarrow> Next c1
        | Some b \<Rightarrow>
            if rctype (req c) \<noteq> Some AppJson then Next c1
            else if body_limit < length b then NextErr TooLarge (c1\<lparr>req_body_read := True\<rparr>)
            else if strip_bom b = []
              then Next (c1\<lparr>req_body := EmptyObj, req_body_read := True\<rparr>)
            else if strict_first (strip_bom b) \<and> JSON_parse d (strip_bom b)
              then Next (c1\<lparr>req_body := JsonVal (strip_bom b), req_body_read := True\<rparr>)
            else NextErr ParseFailed (c1\<lparr>req_body_read := True\<rparr>))"

text \<open>\<^verbatim>\<open>app.use(express.urlencoded({ extended: false }))\<close>: the query-string parser
  accepts every text; the failures are the size limit and the limit of 1000
  parameters.\<close>

definition express_urlencoded :: "ctx \<Rightarrow> outcome" where
  "express_urlencoded c =
     (if req_body_read c then Next c
      else
        let c1 = default_body c in
        case rbody (req c) of
          None \<Rightarrow> Next c1
        | Some b \<Rightarrow>
            if rctype (req c) \<noteq> Some FormUrlencoded then Next c1
            else if body_limit < length b then NextErr TooLarge (c1\<lparr>req_body_read := True\<rparr>)
            else if 1000 \<le> length (filter (\<lambda>x. x = CHR ''&'') (strip_bom b))
              then NextErr TooManyParameters (c1\<lparr>req_body_read := True\<rparr>)
            else Next (c1\<lparr>req_body := FormVal (strip_bom b), req_body_read := True\<rparr>))"

text \<open>\<^verbatim>\<open>res.send\<close> gives the response a content type when none is set yet.
  (It also sets the length and an entity tag, which are left out.)\<close>

definition with_type :: "string \<Rightarrow> ctx \<Rightarrow> ctx" where
  "with_type t c =
     (if res_headers c ''content-type'' = None
      then c\<lparr>res_headers := (res_headers c)(''content-type'' \<mapsto> HStr t)\<rparr>
      else c)"

text \<open>The rate limiter of lines 25 to 30, with the library's memory store: one
  counter per client, all cleared together every \<open>windowMs\<close>. The clearing
  that the store's timer does is applied when the next request arrives. The
  remaining quota in the header is \<^verbatim>\<open>Math.max(max - current, 0)\<close>, which is the
  subtraction of natural numbers.\<close>

definition windowMs :: nat where
  "windowMs = 15 * 60 * 1000"

definition max_requests :: nat where
  "max_requests = 100"

definition message :: string where
  "message = ''Too many requests from this IP, please try again later.''"

definition resetAll :: "nat \<Rightarrow> sstate \<Rightarrow> sstate" where
  "resetAll now s =
     (if now < resetTime s then s
      else s\<lparr>hits := Map.empty,
             resetTime := resetTime s + ((now - resetTime s) div windowMs + 1) * windowMs\<rparr>)"

definition incr :: "string \<Rightarrow> sstate \<Rightarrow> nat \<times> sstate" where
  "incr key s =
     (let current = (case hits s key of None \<Rightarrow> 1 | Some n \<Rightarrow> n + 1)
      in (current, s\<lparr>hits := (hits s)(key \<mapsto> current)\<rparr>))"

definition limiter :: "ctx \<Rightarrow> sstate \<Rightarrow> outcome \<times> sstate" where
  "limiter c s =
     (let (current, s') = incr (rip (req c)) (resetAll (rtime (req c)) s);
          c1 = c\<lparr>res_headers := (res_headers c)
                 (''x-ratelimit-limit'' \<mapsto> HNum max_requests,
                  ''x-ratelimit-remaining'' \<mapsto> HNum (max_requests - current),
                  ''x-ratelimit-reset'' \<mapsto> HNum ((resetTime s' + 999) div 1000))\<rparr>
      in if max_requests < current then
           (Send (with_type ''text/html; charset=utf-8''
                    (c1\<lparr>statusCode := 429,
                        res_headers := (res_headers c1)
                          (''retry-after'' \<mapsto> HNum ((windowMs + 999) div 1000))\<rparr>))
                 message, s')
         else (Next c1, s'))"

text \<open>The error handling middleware of lines 45 to 51. \<^verbatim>\<open>res.send\<close> of an object
  sends its JSON text; the objects here have string members only. In a
  string the quotation mark and the backslash are escaped (control
  characters too, which the strings of the source do not contain).\<close>

definition escape :: "char \<Rightarrow> string" where
  "escape x =
     (if x = CHR 0x22 then [CHR 0x5C, CHR 0x22]
      else if x = CHR 0x5C then [CHR 0x5C, CHR 0x5C]
      else [x])"

definition quote :: "string \<Rightarrow> string" where
  "quote x = [CHR 0x22] @ concat (map escape x) @ [CHR 0x22]"

fun members :: "(string \<times> string) list \<Rightarrow> string" where
  "members [] = []"
| "members [(k, v)] = quote k @ '':'' @ quote v"
| "members ((k, v) # kvs) = quote k @ '':'' @ quote v @ '','' @ members kvs"

definition JSON_stringify :: "(string \<times> string) list \<Rightarrow> string" where
  "JSON_stringify kvs = ''{'' @ members kvs @ ''}''"

definition error_handler :: "error \<Rightarrow> ctx \<Rightarrow> sstate \<Rightarrow> outcome \<times> sstate" where
  "error_handler err c s =
     (Send (with_type ''application/json; charset=utf-8'' (c\<lparr>statusCode := 500\<rparr>))
           (JSON_stringify
              [(''status'', ''error''),
               (''message'', ''An internal error occurred. Please try again later.'')]),
      s\<lparr>console := console s @ [ErrorStack err]\<rparr>)"

section \<open>The application: layers and dispatch\<close>

text \<open>Every \<^verbatim>\<open>app.use\<close> of the source appends one layer to the application's
  stack. The stages are named after what the source mounts; \<open>Finalhandler\<close>
  is the framework's own last resort, reached when the stack is exhausted.\<close>

datatype stage =
    Helmet | Cors | Morgan | Json | Urlencoded | Limiter
  | Customers | Analytics | ErrorHandler | Finalhandler

definition app :: "(string \<times> stage) list" where
  "app =
     [(''/'', Helmet),
      (''/'', Cors),
      (''/'', Morgan),
      (''/'', Json),
      (''/'', Urlencoded),
      (''/'', Limiter),
      (''/api/customers'', Customers),
      (''/api/analytics'', Analytics),
      (''/'', ErrorHandler)]"

text \<open>A layer mounted on a path matches the request paths that start with it,
  letter case ignored, up to the end or a slash; the root matches every
  path.\<close>

definition lower :: "char \<Rightarrow> char" where
  "lower c =
     (case map_of (zip ''ABCDEFGHIJKLMNOPQRSTUVWXYZ'' ''abcdefghijklmnopqrstuvwxyz'') c of
        None \<Rightarrow> c
      | Some l \<Rightarrow> l)"

definition match_path :: "string \<Rightarrow> string \<Rightarrow> bool" where
  "match_path mount p =
     (mount = ''/'' \<or>
      (take (length mount) (map lower p) = map lower mount \<and>
       (case drop (length mount) p of [] \<Rightarrow> True | x # xs \<Rightarrow> x = CHR ''/'')))"

text \<open>A middleware of three parameters is skipped while a failure is pending,
  and the middleware of four parameters (the error handler) is skipped while
  none is.\<close>

fun call :: "deps \<Rightarrow> stage \<Rightarrow> error option \<Rightarrow> ctx \<Rightarrow> sstate \<Rightarrow> (outcome \<times> sstate) option" where
  "call d ErrorHandler (Some e) c s = Some (error_handler e c s)"
| "call d ErrorHandler None c s = None"
| "call d st (Some e) c s = None"
| "call d Helmet None c s = Some (helmet d c, s)"
| "call d Cors None c s = Some (cors c, s)"
| "call d Morgan None c s = Some (morgan c, s)"
| "call d Json None c s = Some (express_json d c, s)"
| "call d Urlencoded None c s = Some (express_urlencoded c, s)"
| "call d Limiter None c s = Some (limiter c s)"
| "call d Customers None c s = Some (customersRouter d c, s)"
| "call d Analytics None c s = Some (analyticsRouter d c, s)"
| "call d Finalhandler None c s = None"

text \<open>Ending a response: the status, headers and body go to the client, and
  the access logger, when registered, writes its line.\<close>

definition finish :: "ctx \<Rightarrow> string \<Rightarrow> sstate \<Rightarrow> response \<times> sstate" where
  "finish c b s =
     (\<lparr>status = statusCode c, headers = res_headers c, content = b\<rparr>,
      if on_finished c
      then s\<lparr>console := console s @
               [AccessLine (rmethod (req c)) (rpath (req c)) (statusCode c)]\<rparr>
      else s)"

text \<open>The framework's final handler: with no failure pending the answer is
  404 and names the verb and path; with a failure pending it is the
  failure's own status when that is an error status, else 500. It drops the
  content headers and sets two security headers of its own. (The page is
  HTML around the text given here.)\<close>

definition final_status :: "error option \<Rightarrow> nat" where
  "final_status err =
     (case err of
        None \<Rightarrow> 404
      | Some e \<Rightarrow>
          (case err_status e of
             None \<Rightarrow> 500
           | Some n \<Rightarrow> if 400 \<le> n \<and> n < 600 then n else 500))"

definition final_text :: "error option \<Rightarrow> ctx \<Rightarrow> string" where
  "final_text err c =
     (case err of
        None \<Rightarrow> ''Cannot '' @ verb_name (rmethod (req c)) @ '' '' @ rpath (req c)
      | Some (Raised x) \<Rightarrow> x
      | Some e \<Rightarrow> ''Error'')"

definition finalhandler :: "error option \<Rightarrow> ctx \<Rightarrow> sstate \<Rightarrow> response \<times> sstate" where
  "finalhandler err c s =
     finish
       (c\<lparr>statusCode := final_status err,
          res_headers :=
            ((res_headers c) |` (- {''content-encoding'', ''content-language'', ''content-range''}))
              (''content-security-policy'' \<mapsto> HStr (''default-src 'none'' @ [CHR 0x27]),
               ''x-content-type-options'' \<mapsto> HStr ''nosniff'',
               ''content-type'' \<mapsto> HStr ''text/html; charset=utf-8'')\<rparr>)
       (final_text err c) s"

definition traced :: "stage \<Rightarrow> response \<times> stage list \<times> sstate \<Rightarrow> response \<times> stage list \<times> sstate" where
  "traced st x = (case x of (r, tr, s) \<Rightarrow> (r, st # tr, s))"

text \<open>Dispatch through the stack, in order, from the first layer. The result
  is the response, the stages that ran for this request in the order they
  ran, and the new shared state.\<close>

fun handle :: "deps \<Rightarrow> (string \<times> stage) list \<Rightarrow> error option \<Rightarrow> ctx \<Rightarrow> sstate
    \<Rightarrow> response \<times> stage list \<times> sstate" where
  "handle d [] err c s =
     (case finalhandler err c s of (r, s') \<Rightarrow> (r, [Finalhandler], s'))"
| "handle d ((mount, st) # ls) err c s =
     (if \<not> match_path mount (rpath (req c)) then handle d ls err c s
      else
        case call d st err c s of
          None \<Rightarrow> handle d ls err c s
        | Some (Next c', s') \<Rightarrow> traced st (handle d ls None c' s')
        | Some (NextErr e c', s') \<Rightarrow> traced st (handle d ls (Some e) c' s')
        | Some (Send c' b, s') \<Rightarrow>
            (case finish c' b s' of (r, s'') \<Rightarrow> (r, [st], s'')))"

declare handle.simps [simp del]

definition new_ctx :: "request \<Rightarrow> ctx" where
  "new_ctx r =
     \<lparr>req = r, req_body = Unparsed, req_body_read = False, statusCode = 200,
      res_headers = [''x-powered-by'' \<mapsto> HStr ''Express''], on_finished = False\<rparr>"

definition serve :: "deps \<Rightarrow> request \<Rightarrow> sstate \<Rightarrow> response \<times> stage list \<times> sstate" where
  "serve d r s = handle d app None (new_ctx r) s"

definition response_of :: "deps \<Rightarrow> request \<Rightarrow> sstate \<Rightarrow> response" where
  "response_of d r s = fst (serve d r s)"

definition stages_of :: "deps \<Rightarrow> request \<Rightarrow> sstate \<Rightarrow> stage list" where
  "stages_of d r s = fst (snd (serve d r s))"

definition state_after :: "deps \<Rightarrow> request \<Rightarrow> sstate \<Rightarrow> sstate" where
  "state_after d r s = snd (snd (serve d r s))"

text \<open>The server on a sequence of requests, in arrival order: each is served
  in the state the previous one left.\<close>

fun final_state :: "deps \<Rightarrow> request list \<Rightarrow> sstate \<Rightarrow> sstate" where
  "final_state d [] s = s"
| "final_state d (r # rs) s = final_state d rs (state_after d r s)"

text \<open>The state of a server started at time \<open>t0\<close>.\<close>

definition init_state :: "nat \<Rightarrow> sstate" where
  "init_state t0 = \<lparr>hits = Map.empty, resetTime = t0 + windowMs, console = []\<rparr>"

section \<open>Concrete collaborators and requests\<close>

text \<open>A concrete instance of what the source leaves open, to run the server
  on concrete requests: header defaults of \<^verbatim>\<open>helmet\<close>, the JSON recogniser, a
  customers router that answers every request and an analytics router that
  fails on every request.\<close>

definition sample_headers :: "(string \<times> hval) list" where
  "sample_headers =
     [(''content-security-policy'',
         HStr ''default-src 'self';base-uri 'self';object-src 'none';upgrade-insecure-requests''),
      (''x-dns-prefetch-control'', HStr ''off''),
      (''x-frame-options'', HStr ''SAMEORIGIN''),
      (''strict-transport-security'', HStr ''max-age=15552000; includeSubDomains''),
      (''x-download-options'', HStr ''noopen''),
      (''x-content-type-options'', HStr ''nosniff''),
      (''x-xss-protection'', HStr ''0'')]"

definition sample_deps :: deps where
  "sample_deps =
     \<lparr>helmet_headers = sample_headers,
      JSON_parse = JSON_text,
      customersRouter = (\<lambda>c. Send c ''[]''),
      analyticsRouter = (\<lambda>c. NextErr (Raised ''Error: query failed'') c)\<rparr>"

definition get_request :: "string \<Rightarrow> request" where
  "get_request p =
     \<lparr>rmethod = GET, rpath = p, rip = ''10.0.0.1'', rctype = None, rbody = None,
      rtime = 1000\<rparr>"

definition options_request :: "string \<Rightarrow> request" where
  "options_request p =
     \<lparr>rmethod = OPTIONS, rpath = p, rip = ''10.0.0.1'', rctype = None, rbody = None,
      rtime = 1000\<rparr>"

text \<open>A request of the same client in the next window.\<close>

definition later_request :: "string \<Rightarrow> request" where
  "later_request p =
     \<lparr>rmethod = GET, rpath = p, rip = ''10.0.0.1'', rctype = None, rbody = None,
      rtime = 15 * 60 * 1000 + 1000\<rparr>"

definition post_json :: "string \<Rightarrow> string \<Rightarrow> request" where
  "post_json p b =
     \<lparr>rmethod = POST, rpath = p, rip = ''10.0.0.1'', rctype = Some AppJson,
      rbody = Some b, rtime = 1000\<rparr>"

section \<open>Conditions on a request\<close>

text \<open>The conditions under which the two body parsers raise nothing, read off
  \<open>express_json\<close> and \<open>express_urlencoded\<close>; lemma \<open>reaches_limiter_iff\<close>
  below shows that they are exactly the conditions under which a request
  arrives at the rate limiter.\<close>

definition json_ok :: "deps \<Rightarrow> request \<Rightarrow> bool" where
  "json_ok d r =
     (case rbody r of
        None \<Rightarrow> True
      | Some b \<Rightarrow>
          rctype r \<noteq> Some AppJson \<or>
          (length b \<le> body_limit \<and>
           (strip_bom b = [] \<or>
            (strict_first (strip_bom b) \<and> JSON_parse d (strip_bom b)))))"

definition form_ok :: "request \<Rightarrow> bool" where
  "form_ok r =
     (case rbody r of
        None \<Rightarrow> True
      | Some b \<Rightarrow>
          rctype r \<noteq> Some FormUrlencoded \<or>
          (length b \<le> body_limit \<and>
           length (filter (\<lambda>x. x = CHR ''&'') (strip_bom b)) < 1000))"

definition passes_upstream :: "deps \<Rightarrow> request \<Rightarrow> bool" where
  "passes_upstream d r = (rmethod r \<noteq> OPTIONS \<and> json_ok d r \<and> form_ok r)"

text \<open>The counter of client \<open>k\<close> in the store; a client with no entry has
  made no request in the current window.\<close>

definition cnt :: "sstate \<Rightarrow> string \<Rightarrow> nat" where
  "cnt s k = (case hits s k of None \<Rightarrow> 0 | Some n \<Rightarrow> n)"

definition middleware :: "stage list" where
  "middleware = [Helmet, Cors, Morgan, Json, Urlencoded, Limiter]"

text \<open>The window a request falls in, for a server started at \<open>t0\<close>, and the
  number of requests of client \<open>k\<close> among \<open>rs\<close> that arrive at the rate limiter
  in window \<open>w\<close>.\<close>

definition window_of :: "nat \<Rightarrow> request \<Rightarrow> nat" where
  "window_of t0 x = (rtime x - t0) div windowMs"

definition counted_in :: "deps \<Rightarrow> nat \<Rightarrow> nat \<Rightarrow> string \<Rightarrow> request list \<Rightarrow> nat" where
  "counted_in d t0 w k rs =
     length (filter (\<lambda>x. rip x = k \<and> passes_upstream d x \<and> window_of t0 x = w) rs)"

text \<open>The store after the requests \<open>rs\<close>: the current window is \<open>w\<close>, the
  counters are those of window \<open>w\<close>, and no counted request is of a later
  window.\<close>

definition window_inv :: "deps \<Rightarrow> nat \<Rightarrow> request list \<Rightarrow> sstate \<Rightarrow> nat \<Rightarrow> bool" where
  "window_inv d t0 rs s w =
     (resetTime s = t0 + (w + 1) * windowMs \<and>
      (\<forall>k. cnt s k = counted_in d t0 w k rs) \<and>
      (\<forall>x\<in>set rs. passes_upstream d x \<longrightarrow> window_of t0 x \<le> w) \<and>
      (w = 0 \<or> (\<exists>x\<in>set rs. passes_upstream d x \<and> window_of t0 x = w)))"




section \<open>Properties of the start-up\<close>

lemma no_connect_in_callbacks: "filter is_connect (concat (map (on_event e) evs)) = []"
proof (induction evs)
  case Nil
  then show ?case by simp
next
  case (Cons ev evs)
  then show ?case by (cases ev) (simp_all add: connect_callback_def listen_callback_def)
qed

lemma no_listen_in_callbacks: "filter is_listen (concat (map (on_event e) evs)) = []"
proof (induction evs)
  case Nil
  then show ?case by simp
next
  case (Cons ev evs)
  then show ?case by (cases ev) (simp_all add: connect_callback_def listen_callback_def)
qed

text \<open>Whatever the event loop delivers afterwards, the script starts at most
  one connection attempt, and exactly one when \<^verbatim>\<open>MONGO_URI\<close> is set: no callback
  starts another.\<close>

lemma connect_once:
  "filter is_connect (run dotfile penv evs) =
     (case dotenv_config dotfile penv ''MONGO_URI'' of
        None \<Rightarrow> []
      | Some u \<Rightarrow> [MongooseConnect (Some u)])"
  by (simp add: run_def Let_def server_js_def aborted_def no_connect_in_callbacks
      split: option.splits)

text \<open>With the connection string set and a port that binds, the run is the
  connection attempt, the call of \<^verbatim>\<open>app.listen\<close>, and then the callbacks.\<close>

lemma run_started:
  assumes "dotenv_config dotfile penv ''MONGO_URI'' = Some u"
    and "app_listen (PORT (dotenv_config dotfile penv)) = Bound n"
  shows "run dotfile penv evs =
     [MongooseConnect (Some u), AppListen (PORT (dotenv_config dotfile penv))] @
     concat (map (on_event (dotenv_config dotfile penv)) evs)"
  using assms by (simp add: run_def Let_def server_js_def aborted_def)

text \<open>
  Claim C4. The connector makes one connection attempt at start-up and never
  retries, and a failed attempt is logged. Evaluated on a start-up whose
  attempt fails: there is one attempt and no second one, but the only line
  written is the success message; the failure itself is written nowhere.
\<close>

theorem failed_connect_logs_success:
  "run Map.empty [''MONGO_URI'' \<mapsto> ''mongodb://db.invalid:27017/insighttrack'']
       [ConnectSettled (Some ''MongoNetworkError: failed to connect to server'')]
   = [MongooseConnect (Some ''mongodb://db.invalid:27017/insighttrack''),
      AppListen (JNum 5000),
      ConsoleLog ''Connected to database'']"
  by (simp add: run_def dotenv_config_def server_js_def aborted_def PORT_def
      connect_callback_def)

text \<open>
  Claim C8, as the code has it. When the connection string \<^verbatim>\<open>MONGO_URI\<close> is set,
  so that the script reaches \<^verbatim>\<open>app.listen\<close>: the server listens on the value of
  \<open>PORT\<close> when that is the decimal numeral of a port number from 1 to 65535,
  and on port 5000 when the variable is absent or empty. There is one call of
  \<^verbatim>\<open>app.listen\<close>.
\<close>

theorem listen_port:
  assumes "dotenv_config dotfile penv ''MONGO_URI'' = Some u"
  shows
  "(dotenv_config dotfile penv ''PORT'' = Some v \<and> decimal v = Some n \<and>
    0 < n \<and> n \<le> 65535 \<longrightarrow>
      filter is_listen (run dotfile penv evs) = [AppListen (JStr v)] \<and>
      app_listen (JStr v) = Bound n) \<and>
   (dotenv_config dotfile penv ''PORT'' = None \<or>
    dotenv_config dotfile penv ''PORT'' = Some [] \<longrightarrow>
      filter is_listen (run dotfile penv evs) = [AppListen (JNum 5000)] \<and>
      app_listen (JNum 5000) = Bound 5000)"
proof -
  let ?e = "dotenv_config dotfile penv"
  have "filter is_listen (run dotfile penv evs) = [AppListen (JStr v)] \<and>
        app_listen (JStr v) = Bound n"
    if "?e ''PORT'' = Some v" "decimal v = Some n" "0 < n" "n \<le> 65535"
  proof -
    from that(2) have "v \<noteq> []" by (auto simp: decimal_def)
    with that(1) have p: "PORT ?e = JStr v" by (simp add: PORT_def)
    from that(2,4) have b: "app_listen (JStr v) = Bound n" by simp
    from run_started [OF assms, of n evs] p b show ?thesis
      by (simp add: no_listen_in_callbacks)
  qed
  moreover have "filter is_listen (run dotfile penv evs) = [AppListen (JNum 5000)] \<and>
        app_listen (JNum 5000) = Bound 5000"
    if "?e ''PORT'' = None \<or> ?e ''PORT'' = Some []"
  proof -
    from that have p: "PORT ?e = JNum 5000" by (auto simp: PORT_def)
    have b: "app_listen (JNum 5000) = Bound 5000" by simp
    from run_started [OF assms, of 5000 evs] p b show ?thesis
      by (simp add: no_listen_in_callbacks)
  qed
  ultimately show ?thesis by blast
qed

lemma decimal_8080: "decimal ''8080'' = Some 8080"
  by (simp add: decimal_def digit_of_def)

theorem listen_port_witness:
  "filter is_listen
     (run Map.empty [''MONGO_URI'' \<mapsto> ''mongodb://localhost/insighttrack'', ''PORT'' \<mapsto> ''8080'']
        [Listening])
     = [AppListen (JStr ''8080'')] \<and>
   app_listen (JStr ''8080'') = Bound 8080 \<and>
   filter is_listen
     (run Map.empty [''MONGO_URI'' \<mapsto> ''mongodb://localhost/insighttrack''] [Listening])
     = [AppListen (JNum 5000)]"
  using
    listen_port [of Map.empty
      "[''MONGO_URI'' \<mapsto> ''mongodb://localhost/insighttrack'', ''PORT'' \<mapsto> ''8080'']"
      "''mongodb://localhost/insighttrack''" "''8080''" 8080 "[Listening]"]
    listen_port [of Map.empty "[''MONGO_URI'' \<mapsto> ''mongodb://localhost/insighttrack'']"
      "''mongodb://localhost/insighttrack''" "[]" 0 "[Listening]"]
    decimal_8080
  by (simp add: dotenv_config_def)

text \<open>Claim C8 as stated fails when \<open>PORT\<close> is set to the empty string, with
  the connection string set: the server does not listen on that value but on
  5000.\<close>

theorem empty_port_listens_on_default:
  "AppListen (JStr []) \<notin>
     set (run Map.empty [''MONGO_URI'' \<mapsto> ''mongodb://localhost/insighttrack'', ''PORT'' \<mapsto> []]
            [Listening]) \<and>
   AppListen (JNum 5000) \<in>
     set (run Map.empty [''MONGO_URI'' \<mapsto> ''mongodb://localhost/insighttrack'', ''PORT'' \<mapsto> []]
            [Listening])"
  by (simp add: run_def dotenv_config_def server_js_def aborted_def PORT_def
      listen_callback_def)

text \<open>
  Claim C9, as the code has it. When the connection string \<^verbatim>\<open>MONGO_URI\<close> is set
  and the port is one that binds, \<^verbatim>\<open>app.listen\<close> is called in the synchronous
  part of the script, right after the connection attempt is started and
  before any callback can run, and it is called once: whatever events
  follow, among them a connection attempt that settles with an error, the
  server listens.
\<close>

theorem listen_not_gated_on_connection:
  assumes "dotenv_config dotfile penv ''MONGO_URI'' = Some u"
    and "app_listen (PORT (dotenv_config dotfile penv)) = Bound n"
  shows
  "take 2 (run dotfile penv evs) =
     [MongooseConnect (Some u), AppListen (PORT (dotenv_config dotfile penv))] \<and>
   filter is_listen (run dotfile penv (pre @ ConnectSettled (Some x) # post))
     = [AppListen (PORT (dotenv_config dotfile penv))] \<and>
   filter is_listen (run dotfile penv (pre @ ConnectSettled None # post))
     = [AppListen (PORT (dotenv_config dotfile penv))]"
  by (simp add: run_started [OF assms] no_listen_in_callbacks connect_callback_def)

theorem listen_not_gated_on_connection_witness:
  "take 2 (run Map.empty [''MONGO_URI'' \<mapsto> ''mongodb://db.invalid:27017/insighttrack'']
             [ConnectSettled (Some ''MongoNetworkError: failed to connect to server''), Listening])
     = [MongooseConnect (Some ''mongodb://db.invalid:27017/insighttrack''), AppListen (JNum 5000)] \<and>
   filter is_listen
     (run Map.empty [''MONGO_URI'' \<mapsto> ''mongodb://db.invalid:27017/insighttrack'']
        ([] @ ConnectSettled (Some ''MongoNetworkError: failed to connect to server'') # [Listening]))
     = [AppListen (JNum 5000)]"
proof -
  let ?p = "[''MONGO_URI'' \<mapsto> ''mongodb://db.invalid:27017/insighttrack'']"
  have u: "dotenv_config Map.empty ?p ''MONGO_URI'' = Some ''mongodb://db.invalid:27017/insighttrack''"
    and p: "PORT (dotenv_config Map.empty ?p) = JNum 5000"
    by (simp_all add: dotenv_config_def PORT_def)
  then have b: "app_listen (PORT (dotenv_config Map.empty ?p)) = Bound 5000" by simp
  from listen_not_gated_on_connection [OF u b,
      of "[ConnectSettled (Some ''MongoNetworkError: failed to connect to server''), Listening]"
         "[]" "''MongoNetworkError: failed to connect to server''" "[Listening]"]
  show ?thesis
    by (simp add: p)
qed

text \<open>Claim C9 as stated fails when \<^verbatim>\<open>MONGO_URI\<close> is absent: \<^verbatim>\<open>mongoose.connect\<close>
  throws, the process ends, and \<^verbatim>\<open>app.listen\<close> is never called.\<close>

theorem no_listen_without_connection_string:
  "run Map.empty [''PORT'' \<mapsto> ''5000''] [ConnectSettled None, Listening]
     = [Uncaught MongooseError]"
  by (simp add: run_def dotenv_config_def server_js_def aborted_def)


section \<open>The stages, one at a time\<close>

lemma with_type_fields [simp]:
  "req (with_type t c) = req c"
  "statusCode (with_type t c) = statusCode c"
  "on_finished (with_type t c) = on_finished c"
  by (simp_all add: with_type_def)

lemma with_type_dom: "dom (res_headers c) \<subseteq> dom (res_headers (with_type t c))"
  by (auto simp: with_type_def)

lemma match_root: "match_path ''/'' p"
  by (simp add: match_path_def)

lemma handle_helmet:
  "handle d ((''/'', Helmet) # ls) None c s = traced Helmet (handle d ls None (ctx_of (helmet d c)) s)"
  by (simp add: handle.simps match_root helmet_def)

lemma handle_cors:
  "rmethod (req c) \<noteq> OPTIONS \<Longrightarrow>
   handle d ((''/'', Cors) # ls) None c s = traced Cors (handle d ls None (ctx_of (cors c)) s)"
  by (simp add: handle.simps match_root cors_def)

lemma handle_cors_options:
  "rmethod (req c) = OPTIONS \<Longrightarrow>
   handle d ((''/'', Cors) # ls) None c s =
     (case finish (ctx_of (cors c)) [] s of (r, s') \<Rightarrow> (r, [Cors], s'))"
  by (simp add: handle.simps match_root cors_def)

lemma handle_morgan:
  "handle d ((''/'', Morgan) # ls) None c s = traced Morgan (handle d ls None (ctx_of (morgan c)) s)"
  by (simp add: handle.simps match_root morgan_def)

lemma req_helmet: "req (ctx_of (helmet d c)) = req c"
  by (simp add: helmet_def)

lemma req_cors: "req (ctx_of (cors c)) = req c"
  by (simp add: cors_def)

lemma req_morgan: "req (ctx_of (morgan c)) = req c"
  by (simp add: morgan_def)

lemma read_helmet: "req_body_read (ctx_of (helmet d c)) = req_body_read c"
  by (simp add: helmet_def)

lemma read_cors: "req_body_read (ctx_of (cors c)) = req_body_read c"
  by (simp add: cors_def)

lemma read_morgan: "req_body_read (ctx_of (morgan c)) = req_body_read c"
  by (simp add: morgan_def)

lemma json_pass:
  "\<not> req_body_read c \<Longrightarrow> json_ok d (req c) \<Longrightarrow>
   \<exists>c'. express_json d c = Next c' \<and> req c' = req c \<and> on_finished c' = on_finished c \<and>
        (req_body_read c' \<longrightarrow> rctype (req c) = Some AppJson)"
  by (auto simp: express_json_def json_ok_def default_body_def Let_def split: option.splits)

lemma json_fail:
  "\<not> req_body_read c \<Longrightarrow> \<not> json_ok d (req c) \<Longrightarrow>
   \<exists>b c'. rbody (req c) = Some b \<and>
      express_json d c = NextErr (if body_limit < length b then TooLarge else ParseFailed) c' \<and>
      req c' = req c \<and> on_finished c' = on_finished c"
  by (auto simp: express_json_def json_ok_def default_body_def Let_def split: option.splits)

lemma form_pass:
  "(req_body_read c \<longrightarrow> rctype (req c) = Some AppJson) \<Longrightarrow> form_ok (req c) \<Longrightarrow>
   \<exists>c'. express_urlencoded c = Next c' \<and> req c' = req c \<and> on_finished c' = on_finished c"
  by (auto simp: express_urlencoded_def form_ok_def default_body_def Let_def split: option.splits)

lemma form_fail:
  "(req_body_read c \<longrightarrow> rctype (req c) = Some AppJson) \<Longrightarrow> \<not> form_ok (req c) \<Longrightarrow>
   \<exists>e c'. express_urlencoded c = NextErr e c' \<and> req c' = req c"
  by (auto simp: express_urlencoded_def form_ok_def default_body_def Let_def split: option.splits)

lemma handle_json_next:
  "express_json d c = Next c' \<Longrightarrow>
   handle d ((''/'', Json) # ls) None c s = traced Json (handle d ls None c' s)"
  by (simp add: handle.simps match_root)

lemma handle_json_err:
  "express_json d c = NextErr e c' \<Longrightarrow>
   handle d ((''/'', Json) # ls) None c s = traced Json (handle d ls (Some e) c' s)"
  by (simp add: handle.simps match_root)

lemma handle_form_next:
  "express_urlencoded c = Next c' \<Longrightarrow>
   handle d ((''/'', Urlencoded) # ls) None c s = traced Urlencoded (handle d ls None c' s)"
  by (simp add: handle.simps match_root)

lemma handle_form_err:
  "express_urlencoded c = NextErr e c' \<Longrightarrow>
   handle d ((''/'', Urlencoded) # ls) None c s = traced Urlencoded (handle d ls (Some e) c' s)"
  by (simp add: handle.simps match_root)

text \<open>While a failure is pending every layer is skipped up to the error
  handler, which answers; the answer does not depend on the failure.\<close>

lemma handle_error:
  \<open>(''/'', ErrorHandler) \<in> set ls \<Longrightarrow>
   handle d ls (Some e) c s =
     (case finish (ctx_of (fst (error_handler e c s)))
              ''{"status":"error","message":"An internal error occurred. Please try again later."}''
              (snd (error_handler e c s)) of
        (r, s') \<Rightarrow> (r, [ErrorHandler], s'))\<close>
proof (induction ls)
  case Nil
  then show ?case by simp
next
  case (Cons l ls)
  note handle.simps [simp]
  obtain m st where l: "l = (m, st)" by (cases l)
  show ?case
  proof (cases "st = ErrorHandler")
    case True
    show ?thesis
    proof (cases "match_path m (rpath (req c))")
      case True
      with \<open>st = ErrorHandler\<close> l show ?thesis
        by (simp add: error_handler_def JSON_stringify_def quote_def escape_def)
    next
      case False
      then have "m \<noteq> ''/''" using match_root by auto
      with Cons l False show ?thesis by simp
    qed
  next
    case False
    then have "call d st (Some e) c s = None" by (cases st) simp_all
    with Cons l False show ?thesis by auto
  qed
qed

section \<open>The chain in front of the rate limiter\<close>

lemma new_ctx_fresh: "req (new_ctx r) = r" "\<not> req_body_read (new_ctx r)"
  by (simp_all add: new_ctx_def)

lemma serve_options:
  "rmethod r = OPTIONS \<Longrightarrow>
   \<exists>c. serve d r s = traced Helmet (case finish c [] s of (resp, s') \<Rightarrow> (resp, [Cors], s')) \<and>
       statusCode c = 204 \<and> \<not> on_finished c"
proof -
  let ?c = "ctx_of (cors (ctx_of (helmet d (new_ctx r))))"
  assume "rmethod r = OPTIONS"
  then have "serve d r s = traced Helmet (case finish ?c [] s of (resp, s') \<Rightarrow> (resp, [Cors], s'))"
    by (simp add: serve_def app_def handle_helmet handle_cors_options req_helmet new_ctx_fresh)
  moreover from \<open>rmethod r = OPTIONS\<close> have "statusCode ?c = 204 \<and> \<not> on_finished ?c"
    by (simp add: cors_def helmet_def new_ctx_def)
  ultimately show ?thesis by blast
qed

text \<open>When the JSON parser raises, the failure is the parse failure, or the
  size failure for a body over the limit.\<close>

lemma serve_json_raises:
  assumes "rmethod r \<noteq> OPTIONS" "\<not> json_ok d r"
  shows "\<exists>b c. rbody r = Some b \<and> req c = r \<and> on_finished c \<and>
    serve d r s = traced Helmet (traced Cors (traced Morgan (traced Json
      (handle d (drop 4 app)
         (Some (if body_limit < length b then TooLarge else ParseFailed)) c s))))"
proof -
  let ?c3 = "ctx_of (morgan (ctx_of (cors (ctx_of (helmet d (new_ctx r))))))"
  have r3: "req ?c3 = r" and b3: "\<not> req_body_read ?c3" and o3: "on_finished ?c3"
    by (simp_all add: req_morgan req_cors req_helmet read_morgan read_cors read_helmet new_ctx_fresh)
      (simp add: morgan_def)
  from json_fail [of ?c3 d] r3 b3 o3 assms obtain b c' where b: "rbody r = Some b" and
    j: "express_json d ?c3 = NextErr (if body_limit < length b then TooLarge else ParseFailed) c'"
       "req c' = r" "on_finished c'" by auto
  have "serve d r s = traced Helmet (traced Cors (traced Morgan (traced Json
      (handle d (drop 4 app)
         (Some (if body_limit < length b then TooLarge else ParseFailed)) c' s))))"
    using assms(1)
    by (simp add: serve_def app_def handle_helmet handle_cors handle_morgan
        handle_json_err [OF j(1)] req_helmet new_ctx_fresh)
  with b j(2,3) show ?thesis by blast
qed

lemma serve_json_fail:
  assumes "rmethod r \<noteq> OPTIONS" "\<not> json_ok d r"
  shows "\<exists>e c. req c = r \<and>
    serve d r s = traced Helmet (traced Cors (traced Morgan (traced Json
                    (handle d (drop 4 app) (Some e) c s))))"
  using serve_json_raises [OF assms, of s] by blast

lemma serve_form_fail:
  assumes "rmethod r \<noteq> OPTIONS" "json_ok d r" "\<not> form_ok r"
  shows "\<exists>e c. req c = r \<and>
    serve d r s = traced Helmet (traced Cors (traced Morgan (traced Json (traced Urlencoded
                    (handle d (drop 5 app) (Some e) c s)))))"
proof -
  let ?c3 = "ctx_of (morgan (ctx_of (cors (ctx_of (helmet d (new_ctx r))))))"
  have r3: "req ?c3 = r" and b3: "\<not> req_body_read ?c3"
    by (simp_all add: req_morgan req_cors req_helmet read_morgan read_cors read_helmet new_ctx_fresh)
  from json_pass [of ?c3 d] r3 b3 assms obtain c4 where
    j: "express_json d ?c3 = Next c4" "req c4 = r"
       "req_body_read c4 \<longrightarrow> rctype r = Some AppJson" by auto
  from form_fail [of c4] j assms obtain e c5 where
    f: "express_urlencoded c4 = NextErr e c5" "req c5 = r" by auto
  have "serve d r s = traced Helmet (traced Cors (traced Morgan (traced Json (traced Urlencoded
                    (handle d (drop 5 app) (Some e) c5 s)))))"
    using assms(1)
    by (simp add: serve_def app_def handle_helmet handle_cors handle_morgan
        handle_json_next [OF j(1)] handle_form_err [OF f(1)] req_helmet new_ctx_fresh)
  with f(2) show ?thesis by blast
qed

lemma serve_pass:
  assumes "passes_upstream d r"
  shows "\<exists>c. req c = r \<and> on_finished c \<and>
    serve d r s = traced Helmet (traced Cors (traced Morgan (traced Json (traced Urlencoded
                    (handle d (drop 5 app) None c s)))))"
proof -
  let ?c3 = "ctx_of (morgan (ctx_of (cors (ctx_of (helmet d (new_ctx r))))))"
  from assms have m: "rmethod r \<noteq> OPTIONS" and jo: "json_ok d r" and fo: "form_ok r"
    by (simp_all add: passes_upstream_def)
  have r3: "req ?c3 = r" and b3: "\<not> req_body_read ?c3" and o3: "on_finished ?c3"
    by (simp_all add: req_morgan req_cors req_helmet read_morgan read_cors read_helmet new_ctx_fresh)
      (simp add: morgan_def)
  from json_pass [of ?c3 d] r3 b3 o3 jo obtain c4 where
    j: "express_json d ?c3 = Next c4" "req c4 = r"
       "req_body_read c4 \<longrightarrow> rctype r = Some AppJson" "on_finished c4" by auto
  from form_pass [of c4] j fo obtain c5 where
    f: "express_urlencoded c4 = Next c5" "req c5 = r" "on_finished c5" by auto
  have "serve d r s = traced Helmet (traced Cors (traced Morgan (traced Json (traced Urlencoded
                    (handle d (drop 5 app) None c5 s)))))"
    using m
    by (simp add: serve_def app_def handle_helmet handle_cors handle_morgan
        handle_json_next [OF j(1)] handle_form_next [OF f(1)] req_helmet new_ctx_fresh)
  with f(2,3) show ?thesis by blast
qed

lemma handle_limiter:
  "handle d ((''/'', Limiter) # ls) None c s =
     (case limiter c s of
        (Next c', s') \<Rightarrow> traced Limiter (handle d ls None c' s')
      | (NextErr e c', s') \<Rightarrow> traced Limiter (handle d ls (Some e) c' s')
      | (Send c' b, s') \<Rightarrow> (case finish c' b s' of (r, s'') \<Rightarrow> (r, [Limiter], s'')))"
  by (simp add: handle.simps match_root split: prod.splits outcome.splits)

lemma limiter_cases:
  assumes "rtime (req c) < resetTime s"
  shows "(cnt s (rip (req c)) < max_requests \<longrightarrow>
           (\<exists>c'. limiter c s = (Next c', s\<lparr>hits := (hits s)(rip (req c) \<mapsto> cnt s (rip (req c)) + 1)\<rparr>)
                \<and> req c' = req c \<and> on_finished c' = on_finished c)) \<and>
         (max_requests \<le> cnt s (rip (req c)) \<longrightarrow>
           (\<exists>c'. limiter c s = (Send c' message, s\<lparr>hits := (hits s)(rip (req c) \<mapsto> cnt s (rip (req c)) + 1)\<rparr>)
                \<and> statusCode c' = 429 \<and> req c' = req c \<and> on_finished c' = on_finished c))"
  using assms
  by (auto simp: limiter_def resetAll_def incr_def Let_def cnt_def split: option.splits)

lemma handle_routes_none:
  assumes "\<not> match_path ''/api/customers'' (rpath (req c))"
    "\<not> match_path ''/api/analytics'' (rpath (req c))"
  shows "handle d (drop 6 app) None c s =
         (case finalhandler None c s of (r, s') \<Rightarrow> (r, [Finalhandler], s'))"
  using assms by (simp add: app_def handle.simps match_root)

section \<open>Failures\<close>

lemma error_layer_ahead: "k \<le> 8 \<Longrightarrow> (''/'', ErrorHandler) \<in> set (drop k app)"
proof -
  assume "k \<le> 8"
  then have "drop k app \<noteq> []" and "last (drop k app) = (''/'', ErrorHandler)"
    by (simp_all add: app_def last_drop)
  then show ?thesis
    using last_in_set by metis
qed

lemma finish_fields:
  "status (fst (finish c b s)) = statusCode c"
  "content (fst (finish c b s)) = b"
  "headers (fst (finish c b s)) = res_headers c"
  "hits (snd (finish c b s)) = hits s"
  "resetTime (snd (finish c b s)) = resetTime s"
  by (simp_all add: finish_def)

lemma error_answer:
  assumes "(''/'', ErrorHandler) \<in> set ls"
  shows \<open>status (fst (handle d ls (Some e) c s)) = 500\<close>
    and \<open>content (fst (handle d ls (Some e) c s)) =
          ''{"status":"error","message":"An internal error occurred. Please try again later."}''\<close>
    and \<open>fst (snd (handle d ls (Some e) c s)) = [ErrorHandler]\<close>
    and \<open>fst (handle d ls (Some e') c s) = fst (handle d ls (Some e) c s)\<close>
    and \<open>hits (snd (snd (handle d ls (Some e) c s))) = hits s\<close>
    and \<open>resetTime (snd (snd (handle d ls (Some e) c s))) = resetTime s\<close>
    and \<open>console (snd (snd (handle d ls (Some e) c s))) =
          console s @ ErrorStack e #
            (if on_finished c then [AccessLine (rmethod (req c)) (rpath (req c)) 500] else [])\<close>
  by (simp_all add: handle_error [OF assms] split_beta finish_fields)
     (simp_all add: error_handler_def finish_def)

lemma traced_fst: "fst (traced st x) = fst x"
  and traced_tr: "fst (snd (traced st x)) = st # fst (snd x)"
  and traced_st: "snd (snd (traced st x)) = snd (snd x)"
  by (simp_all add: traced_def split_beta)

text \<open>
  Claim C1, as the code has it. A request other than \<^verbatim>\<open>OPTIONS\<close> with media type
  \<^verbatim>\<open>application/json\<close> and a non-empty text that \<^verbatim>\<open>JSON.parse\<close> rejects is not
  answered by the body parser: the parser raises a failure, which is the
  parse failure with status 400 attached (for a body over 100kb, the size
  failure with status 413); the remaining middleware and every route handler
  are skipped, and the error handler logs that failure and answers with
  status 500 and the generic body.
\<close>

theorem malformed_json_answered_500:
  assumes "rmethod r \<noteq> OPTIONS" "rctype r = Some AppJson" "rbody r = Some b"
    "strip_bom b \<noteq> []" "\<not> JSON_parse d (strip_bom b)"
  shows \<open>status (response_of d r s) = 500 \<and>
    content (response_of d r s) =
      ''{"status":"error","message":"An internal error occurred. Please try again later."}'' \<and>
    stages_of d r s = [Helmet, Cors, Morgan, Json, ErrorHandler] \<and>
    console (state_after d r s) =
      console s @
        [ErrorStack (if length b \<le> 100 * 1024 then ParseFailed else TooLarge),
         AccessLine (rmethod r) (rpath r) 500] \<and>
    err_status ParseFailed = Some 400 \<and> err_status TooLarge = Some 413\<close>
proof -
  from assms have "\<not> json_ok d r" by (simp add: json_ok_def)
  with assms(1,3) obtain c where c: "req c = r" "on_finished c" and
    sv: "serve d r s = traced Helmet (traced Cors (traced Morgan (traced Json
      (handle d (drop 4 app)
         (Some (if body_limit < length b then TooLarge else ParseFailed)) c s))))"
    using serve_json_raises [of r d s] by auto
  have "(''/'', ErrorHandler) \<in> set (drop 4 app)"
    by (rule error_layer_ahead) simp
  from error_answer(1,2,3,7) [OF this, of d _ c s] sv c show ?thesis
    by (simp add: response_of_def stages_of_def state_after_def traced_fst traced_tr traced_st
        body_limit_def not_less)
qed

theorem malformed_json_answered_500_witness:
  \<open>status (response_of sample_deps (post_json ''/api/customers'' ''{malformed'') (init_state 0)) = 500 \<and>
    content (response_of sample_deps (post_json ''/api/customers'' ''{malformed'') (init_state 0)) =
      ''{"status":"error","message":"An internal error occurred. Please try again later."}'' \<and>
    stages_of sample_deps (post_json ''/api/customers'' ''{malformed'') (init_state 0)
      = [Helmet, Cors, Morgan, Json, ErrorHandler] \<and>
    console (state_after sample_deps (post_json ''/api/customers'' ''{malformed'') (init_state 0))
      = [ErrorStack ParseFailed, AccessLine POST ''/api/customers'' 500]\<close>
proof -
  have t: "strip_bom ''{malformed'' = ''{malformed''"
    by (simp add: strip_bom_def)
  have "\<not> JSON_parse sample_deps (strip_bom ''{malformed'')"
    unfolding t by (simp add: sample_deps_def JSON_text_def start_def is_ws_def is_digit_def)
  moreover have "strip_bom ''{malformed'' \<noteq> []"
    unfolding t by simp
  ultimately show ?thesis
    using malformed_json_answered_500 [of "post_json ''/api/customers'' ''{malformed''"
        "''{malformed''" sample_deps "init_state 0"]
    by (simp add: post_json_def init_state_def)
qed

text \<open>Claim C1 as stated fails on the body \<^verbatim>\<open>{malformed\<close>: the answer is 500, not
  a client error.\<close>

theorem malformed_json_is_not_client_error:
  "status (response_of sample_deps (post_json ''/api/customers'' ''{malformed'') (init_state 0)) = 500"
  by (simp add: response_of_def serve_def app_def handle.simps new_ctx_def post_json_def
      sample_deps_def init_state_def match_path_def helmet_def cors_def morgan_def
      express_json_def default_body_def body_limit_def strip_bom_def strict_first_def is_ws_def
      JSON_text_def start_def is_digit_def error_handler_def finish_def traced_def)




section \<open>The rate limiter\<close>

text \<open>Only the rate limiter touches the store: no other layer changes a
  counter or the end of the window.\<close>

lemma call_store:
  "call d st err c s = Some (out, s') \<Longrightarrow> st \<noteq> Limiter \<Longrightarrow>
   hits s' = hits s \<and> resetTime s' = resetTime s"
  by (cases st; cases err) (auto simp: error_handler_def)

lemma handle_keeps_store:
  "Limiter \<notin> snd ` set ls \<Longrightarrow>
   hits (snd (snd (handle d ls err c s))) = hits s \<and>
   resetTime (snd (snd (handle d ls err c s))) = resetTime s"
proof (induction ls arbitrary: err c s)
  case Nil
  then show ?case
    by (simp add: handle.simps finalhandler_def split_beta finish_fields)
next
  case (Cons l ls)
  obtain m st where l: "l = (m, st)" by (cases l)
  with Cons.prems have st: "st \<noteq> Limiter" and ls: "Limiter \<notin> snd ` set ls" by auto
  note IH = Cons.IH [OF ls]
  show ?case
  proof (cases "match_path m (rpath (req c))")
    case False
    with l IH show ?thesis by (simp add: handle.simps)
  next
    case True
    show ?thesis
    proof (cases "call d st err c s")
      case None
      with True l IH show ?thesis by (simp add: handle.simps)
    next
      case (Some a)
      obtain out s1 where a: "a = (out, s1)" by (cases a)
      from call_store [OF Some [unfolded a] st] have s1: "hits s1 = hits s" "resetTime s1 = resetTime s"
        by auto
      show ?thesis
      proof (cases out)
        case (Next c')
        with True l Some a s1 IH [of None c' s1] show ?thesis
          by (simp add: handle.simps traced_st)
      next
        case (NextErr e c')
        with True l Some a s1 IH [of "Some e" c' s1] show ?thesis
          by (simp add: handle.simps traced_st)
      next
        case (Send c' b)
        with True l Some a s1 show ?thesis
          by (simp add: handle.simps split_beta finish_fields)
      qed
    qed
  qed
qed

lemma routes_keep_store:
  "hits (snd (snd (handle d (drop 6 app) err c s))) = hits s \<and>
   resetTime (snd (snd (handle d (drop 6 app) err c s))) = resetTime s"
  by (rule handle_keeps_store) (simp add: app_def)

text \<open>The rate limiter inside the application: it passes the request on while
  the client's counter is below the limit, and answers itself from then on.\<close>

lemma limiter_pass:
  assumes "rtime (req c) < resetTime s" "cnt s (rip (req c)) < max_requests"
  shows "\<exists>c'. req c' = req c \<and> on_finished c' = on_finished c \<and>
     handle d (drop 5 app) None c s =
     traced Limiter (handle d (drop 6 app) None c'
        (s\<lparr>hits := (hits s)(rip (req c) \<mapsto> cnt s (rip (req c)) + 1)\<rparr>))"
proof -
  from limiter_cases [OF assms(1)] assms(2) obtain c' where
    "limiter c s = (Next c', s\<lparr>hits := (hits s)(rip (req c) \<mapsto> cnt s (rip (req c)) + 1)\<rparr>)"
    "req c' = req c" "on_finished c' = on_finished c" by blast
  then show ?thesis
    by (auto simp: app_def handle_limiter)
qed

lemma limiter_block:
  assumes "rtime (req c) < resetTime s" "max_requests \<le> cnt s (rip (req c))"
  shows "\<exists>c'. statusCode c' = 429 \<and>
     handle d (drop 5 app) None c s =
     (case finish c' message (s\<lparr>hits := (hits s)(rip (req c) \<mapsto> cnt s (rip (req c)) + 1)\<rparr>) of
        (r, s'') \<Rightarrow> (r, [Limiter], s''))"
proof -
  from limiter_cases [OF assms(1)] assms(2) obtain c' where
    "limiter c s = (Send c' message, s\<lparr>hits := (hits s)(rip (req c) \<mapsto> cnt s (rip (req c)) + 1)\<rparr>)"
    "statusCode c' = 429" by blast
  then show ?thesis
    by (auto simp: app_def handle_limiter)
qed

lemma sample_get_passes: "passes_upstream sample_deps (get_request p)"
  by (simp add: passes_upstream_def json_ok_def form_ok_def get_request_def)

text \<open>A request that arrives after the window has ended starts a new one
  first, so the rate limiter always counts in a window that is still open.\<close>

lemma resetAll_window: "rtime_r < resetTime (resetAll rtime_r s)"
proof (cases "rtime_r < resetTime s")
  case True
  then show ?thesis by (simp add: resetAll_def)
next
  case False
  define k where "k = rtime_r - resetTime s"
  have "k < (k div windowMs + 1) * windowMs"
    using dividend_less_times_div [of windowMs k] by (simp add: windowMs_def algebra_simps)
  with False show ?thesis
    by (simp add: resetAll_def k_def)
qed

lemma resetAll_idem: "resetAll t (resetAll t s) = resetAll t s"
  using resetAll_window [of t s] by (simp add: resetAll_def [of t "resetAll t s"])

lemma limiter_resetAll: "limiter c (resetAll (rtime (req c)) s) = limiter c s"
  by (simp add: limiter_def resetAll_idem)

lemma limiter_shape:
  "(\<exists>c' s'. limiter c s = (Next c', s') \<and> req c' = req c) \<or>
   (\<exists>c' s'. limiter c s = (Send c' message, s') \<and> statusCode c' = 429)"
  by (simp add: limiter_def Let_def split_beta)

lemma limiter_under:
  assumes "cnt (resetAll (rtime (req c)) s) (rip (req c)) < max_requests"
  shows "\<exists>c' s'. req c' = req c \<and>
     handle d (drop 5 app) None c s = traced Limiter (handle d (drop 6 app) None c' s')"
proof -
  let ?s0 = "resetAll (rtime (req c)) s"
  from limiter_cases [of c ?s0] resetAll_window [of "rtime (req c)" s] assms
  obtain c' s' where "limiter c ?s0 = (Next c', s')" "req c' = req c" by blast
  then show ?thesis
    by (auto simp: app_def handle_limiter limiter_resetAll)
qed

lemma windowMs_pos: "0 < windowMs"
  by (simp add: windowMs_def)

lemma handle_limiter_reset:
  "handle d (drop 5 app) None c s = handle d (drop 5 app) None c (resetAll (rtime (req c)) s)"
  by (simp add: app_def handle_limiter limiter_resetAll)

lemma state_stopped:
  assumes "\<not> passes_upstream d r"
  shows "resetTime (state_after d r s) = resetTime s \<and> hits (state_after d r s) = hits s"
proof (cases "rmethod r = OPTIONS")
  case True
  from serve_options [OF True, of d s] obtain c where
    "serve d r s = traced Helmet (case finish c [] s of (resp, s') \<Rightarrow> (resp, [Cors], s'))"
    by blast
  then show ?thesis
    by (simp add: state_after_def traced_st split_beta finish_fields)
next
  case m: False
  show ?thesis
  proof (cases "json_ok d r")
    case jo: False
    from serve_json_fail [OF m jo, of s] obtain e c where
      "serve d r s = traced Helmet (traced Cors (traced Morgan (traced Json
                  (handle d (drop 4 app) (Some e) c s))))" by blast
    moreover have "(''/'', ErrorHandler) \<in> set (drop 4 app)"
      by (rule error_layer_ahead) simp
    ultimately show ?thesis
      using error_answer(5,6) [of "drop 4 app" d e c s]
      by (simp add: state_after_def traced_st)
  next
    case jo: True
    with assms m have fo: "\<not> form_ok r" by (simp add: passes_upstream_def)
    from serve_form_fail [OF m jo fo, of s] obtain e c where
      "serve d r s = traced Helmet (traced Cors (traced Morgan (traced Json (traced Urlencoded
                  (handle d (drop 5 app) (Some e) c s)))))" by blast
    moreover have "(''/'', ErrorHandler) \<in> set (drop 5 app)"
      by (rule error_layer_ahead) simp
    ultimately show ?thesis
      using error_answer(5,6) [of "drop 5 app" d e c s]
      by (simp add: state_after_def traced_st)
  qed
qed

text \<open>What the server answers to a request that arrives at the rate limiter,
  and the store it leaves, in terms of the store after the due reset.\<close>

lemma served_at_limiter:
  fixes s :: sstate and r :: request
  defines "s0 \<equiv> resetAll (rtime r) s"
  assumes "passes_upstream d r"
  shows "resetTime (state_after d r s) = resetTime s0 \<and>
         hits (state_after d r s) = (hits s0)(rip r \<mapsto> cnt s0 (rip r) + 1) \<and>
         (cnt s0 (rip r) < max_requests \<longrightarrow>
            (\<exists>c s1. req c = r \<and>
               response_of d r s = fst (handle d (drop 6 app) None c s1) \<and>
               stages_of d r s = middleware @ fst (snd (handle d (drop 6 app) None c s1)))) \<and>
         (max_requests \<le> cnt s0 (rip r) \<longrightarrow>
            status (response_of d r s) = 429 \<and>
            content (response_of d r s) = message \<and>
            stages_of d r s = middleware)"
proof -
  from serve_pass [OF assms(2), of s] obtain c where c: "req c = r"
    and sv: "serve d r s = traced Helmet (traced Cors (traced Morgan (traced Json (traced Urlencoded
                    (handle d (drop 5 app) None c s)))))" by blast
  have s0: "s0 = resetAll (rtime (req c)) s" by (simp add: s0_def c)
  have wc: "rtime (req c) < resetTime s0"
    unfolding s0 by (rule resetAll_window)
  have hl: "handle d (drop 5 app) None c s = handle d (drop 5 app) None c s0"
    unfolding s0 by (rule handle_limiter_reset)
  let ?s2 = "s0\<lparr>hits := (hits s0)(rip (req c) \<mapsto> cnt s0 (rip (req c)) + 1)\<rparr>"
  show ?thesis
  proof (cases "cnt s0 (rip (req c)) < max_requests")
    case lt: True
    from limiter_pass [OF wc lt, of d] obtain c' where c': "req c' = req c" and
      h: "handle d (drop 5 app) None c s0 = traced Limiter (handle d (drop 6 app) None c' ?s2)"
      by blast
    from sv hl h have "response_of d r s = fst (handle d (drop 6 app) None c' ?s2)"
      and "stages_of d r s = middleware @ fst (snd (handle d (drop 6 app) None c' ?s2))"
      by (simp_all add: response_of_def stages_of_def traced_fst traced_tr middleware_def)
    with c c' have "\<exists>c s1. req c = r \<and>
               response_of d r s = fst (handle d (drop 6 app) None c s1) \<and>
               stages_of d r s = middleware @ fst (snd (handle d (drop 6 app) None c s1))"
      by auto
    moreover from sv hl h c routes_keep_store [of d None c' ?s2]
    have "resetTime (state_after d r s) = resetTime s0 \<and>
         hits (state_after d r s) = (hits s0)(rip r \<mapsto> cnt s0 (rip r) + 1)"
      by (simp add: state_after_def traced_st)
    ultimately show ?thesis using lt c by simp
  next
    case ge: False
    then have ge': "max_requests \<le> cnt s0 (rip (req c))" by simp
    from limiter_block [OF wc ge', of d] obtain c' where "statusCode c' = 429" and
      h: "handle d (drop 5 app) None c s0 =
        (case finish c' message ?s2 of (r, s'') \<Rightarrow> (r, [Limiter], s''))"
      by blast
    with sv hl c have "status (response_of d r s) = 429 \<and>
            content (response_of d r s) = message \<and>
            stages_of d r s = middleware"
      and "resetTime (state_after d r s) = resetTime s0 \<and>
         hits (state_after d r s) = (hits s0)(rip r \<mapsto> cnt s0 (rip r) + 1)"
      by (simp_all add: response_of_def stages_of_def state_after_def traced_fst traced_tr
          traced_st middleware_def split_beta finish_fields)
    with ge c show ?thesis by simp
  qed
qed

lemma final_state_snoc:
  "final_state d (rs @ [x]) s = state_after d x (final_state d rs s)"
  by (induction rs arbitrary: s) simp_all

lemma window_mono: "rtime y \<le> rtime x \<Longrightarrow> window_of t0 y \<le> window_of t0 x"
  by (simp add: window_of_def div_le_mono)

lemma reset_window:
  assumes inv: "window_inv d t0 rs s k"
    and later: "\<forall>y\<in>set rs. rtime y \<le> rtime x"
    and t0: "t0 \<le> rtime x"
  shows "resetTime (resetAll (rtime x) s) = t0 + (window_of t0 x + 1) * windowMs \<and>
         (\<forall>key. cnt (resetAll (rtime x) s) key = counted_in d t0 (window_of t0 x) key rs) \<and>
         k \<le> window_of t0 x"
proof -
  let ?j = "window_of t0 x"
  from inv have R: "resetTime s = t0 + (k + 1) * windowMs"
    and C: "\<And>key. cnt s key = counted_in d t0 k key rs"
    and U: "\<And>y. y \<in> set rs \<Longrightarrow> passes_upstream d y \<Longrightarrow> window_of t0 y \<le> k"
    and L: "k = 0 \<or> (\<exists>y\<in>set rs. passes_upstream d y \<and> window_of t0 y = k)"
    by (auto simp: window_inv_def)
  from L later have kj: "k \<le> ?j"
    using window_mono by blast
  show ?thesis
  proof (cases "rtime x < resetTime s")
    case True
    with R t0 have "rtime x - t0 < (k + 1) * windowMs" by simp
    then have "?j < k + 1"
      unfolding window_of_def by (rule less_mult_imp_div_less)
    with kj have "?j = k" by simp
    with True R C kj show ?thesis
      by (simp add: resetAll_def)
  next
    case False
    define a where "a = rtime x - resetTime s"
    from False R have x: "rtime x - t0 = a + (k + 1) * windowMs"
      by (simp add: a_def)
    have nz: "windowMs \<noteq> 0" using windowMs_pos by simp
    have "(a + (k + 1) * windowMs) div windowMs = (k + 1) + a div windowMs"
      by (rule div_mult_self1 [OF nz])
    then have j: "?j = a div windowMs + (k + 1)"
      unfolding window_of_def x by (simp only: add.commute)
    have "counted_in d t0 ?j key rs = 0" for key
    proof -
      have "\<not> (rip y = key \<and> passes_upstream d y \<and> window_of t0 y = ?j)" if "y \<in> set rs" for y
        using U [OF that] j by auto
      then show ?thesis
        by (simp add: counted_in_def)
    qed
    with False R j show ?thesis
      by (simp add: resetAll_def cnt_def a_def algebra_simps)
  qed
qed

lemma counted_in_snoc:
  "counted_in d t0 w key (rs @ [x]) =
     counted_in d t0 w key rs +
     (if rip x = key \<and> passes_upstream d x \<and> window_of t0 x = w then 1 else 0)"
  by (simp add: counted_in_def)

lemma window_step:
  assumes inv: "window_inv d t0 rs s k"
    and later: "\<forall>y\<in>set rs. rtime y \<le> rtime x"
    and t0: "t0 \<le> rtime x"
  shows "\<exists>k'. window_inv d t0 (rs @ [x]) (state_after d x s) k'"
proof (cases "passes_upstream d x")
  case False
  from state_stopped [OF False, of s] inv False
  have "window_inv d t0 (rs @ [x]) (state_after d x s) k"
    by (auto simp: window_inv_def counted_in_snoc cnt_def)
  then show ?thesis ..
next
  case True
  let ?j = "window_of t0 x"
  let ?s0 = "resetAll (rtime x) s"
  from reset_window [OF inv later t0]
  have R: "resetTime ?s0 = t0 + (?j + 1) * windowMs"
    and C: "\<And>key. cnt ?s0 key = counted_in d t0 ?j key rs"
    and kj: "k \<le> ?j" by auto
  from served_at_limiter [OF True, of s]
  have R': "resetTime (state_after d x s) = resetTime ?s0"
    and H: "hits (state_after d x s) = (hits ?s0)(rip x \<mapsto> cnt ?s0 (rip x) + 1)" by auto
  from H have C': "cnt (state_after d x s) key =
      cnt ?s0 key + (if rip x = key then 1 else 0)" for key
    by (simp add: cnt_def)
  from inv have U: "\<And>y. y \<in> set rs \<Longrightarrow> passes_upstream d y \<Longrightarrow> window_of t0 y \<le> k"
    by (auto simp: window_inv_def)
  have "window_inv d t0 (rs @ [x]) (state_after d x s) ?j"
    unfolding window_inv_def
  proof (intro conjI)
    show "resetTime (state_after d x s) = t0 + (?j + 1) * windowMs"
      using R R' by simp
    show "\<forall>key. cnt (state_after d x s) key = counted_in d t0 ?j key (rs @ [x])"
      using C C' True by (simp add: counted_in_snoc)
    show "\<forall>y\<in>set (rs @ [x]). passes_upstream d y \<longrightarrow> window_of t0 y \<le> ?j"
      using U kj by fastforce
    show "?j = 0 \<or> (\<exists>y\<in>set (rs @ [x]). passes_upstream d y \<and> window_of t0 y = ?j)"
      using True by simp
  qed
  then show ?thesis ..
qed

lemma window_inv_final:
  "sorted (map rtime rs) \<Longrightarrow> \<forall>x\<in>set rs. t0 \<le> rtime x \<Longrightarrow>
   \<exists>k. window_inv d t0 rs (final_state d rs (init_state t0)) k"
proof (induction rs rule: rev_induct)
  case Nil
  have "window_inv d t0 [] (init_state t0) 0"
    by (simp add: window_inv_def init_state_def cnt_def counted_in_def)
  then show ?case by auto
next
  case (snoc x rs)
  from snoc.prems have srt: "sorted (map rtime rs)" and later: "\<forall>y\<in>set rs. rtime y \<le> rtime x"
    and t0: "t0 \<le> rtime x" and t0s: "\<forall>y\<in>set rs. t0 \<le> rtime y"
    by (auto simp: sorted_append)
  from snoc.IH [OF srt t0s] obtain k where
    "window_inv d t0 rs (final_state d rs (init_state t0)) k" ..
  from window_step [OF this later t0] show ?case
    by (simp add: final_state_snoc)
qed

lemma fixed_window:
  assumes srt: "sorted (map rtime (pre @ [r]))"
    and t0: "\<forall>x\<in>set (pre @ [r]). t0 \<le> rtime x"
    and pass: "passes_upstream d r"
  shows "(counted_in d t0 (window_of t0 r) (rip r) pre < 100 \<longrightarrow>
            (\<exists>c s1. req c = r \<and>
               response_of d r (final_state d pre (init_state t0))
                 = fst (handle d (drop 6 app) None c s1) \<and>
               stages_of d r (final_state d pre (init_state t0)) =
                 middleware @ fst (snd (handle d (drop 6 app) None c s1)))) \<and>
         (100 \<le> counted_in d t0 (window_of t0 r) (rip r) pre \<longrightarrow>
            status (response_of d r (final_state d pre (init_state t0))) = 429 \<and>
            content (response_of d r (final_state d pre (init_state t0))) =
              ''Too many requests from this IP, please try again later.'' \<and>
            stages_of d r (final_state d pre (init_state t0)) = middleware)"
proof -
  let ?s = "final_state d pre (init_state t0)"
  from srt t0 have "sorted (map rtime pre)" and later: "\<forall>y\<in>set pre. rtime y \<le> rtime r"
    and tr: "t0 \<le> rtime r" and "\<forall>y\<in>set pre. t0 \<le> rtime y"
    by (auto simp: sorted_append)
  from window_inv_final [OF this(1,4), of d] obtain k where "window_inv d t0 pre ?s k" ..
  from reset_window [OF this later tr]
  have "cnt (resetAll (rtime r) ?s) (rip r) = counted_in d t0 (window_of t0 r) (rip r) pre"
    by simp
  with served_at_limiter [OF pass, of ?s] show ?thesis
    by (simp add: max_requests_def message_def)
qed

text \<open>
  Claim C3, as the code has it. The rate limiter counts in fixed windows of
  15 minutes, the first starting when the server starts at \<open>t0\<close>, and it
  counts the requests that arrive at it: those that no earlier stage
  answered or failed. For requests served in the order of their arrival: a
  request that arrives at the rate limiter is passed to the routes when
  fewer than 100 earlier requests of the same client arrived there in the
  same window, whatever other clients sent and whatever was sent in earlier
  windows; from the 101st on it is answered by the limiter with status 429
  and the configured message, and no later stage runs.
\<close>

theorem limiter_fixed_window:
  assumes "sorted (map rtime (pre @ [r]))"
    and "\<forall>x\<in>set (pre @ [r]). t0 \<le> rtime x"
    and "passes_upstream d r"
  shows
    "(length (filter (\<lambda>x. rip x = rip r \<and> passes_upstream d x \<and>
          (rtime x - t0) div (15 * 60 * 1000) = (rtime r - t0) div (15 * 60 * 1000)) pre) < 100 \<longrightarrow>
        (\<exists>c s1. req c = r \<and>
           response_of d r (final_state d pre (init_state t0))
             = fst (handle d (drop 6 app) None c s1) \<and>
           stages_of d r (final_state d pre (init_state t0)) =
             middleware @ fst (snd (handle d (drop 6 app) None c s1)))) \<and>
     (100 \<le> length (filter (\<lambda>x. rip x = rip r \<and> passes_upstream d x \<and>
          (rtime x - t0) div (15 * 60 * 1000) = (rtime r - t0) div (15 * 60 * 1000)) pre) \<longrightarrow>
        status (response_of d r (final_state d pre (init_state t0))) = 429 \<and>
        content (response_of d r (final_state d pre (init_state t0))) =
          ''Too many requests from this IP, please try again later.'' \<and>
        stages_of d r (final_state d pre (init_state t0)) = middleware)"
  using fixed_window [OF assms] by (simp add: counted_in_def window_of_def windowMs_def)

lemma sample_later_passes: "passes_upstream sample_deps (later_request p)"
  by (simp add: passes_upstream_def json_ok_def form_ok_def later_request_def)

text \<open>One client sends 101 requests within 15 minutes and one more in the next
  window: the first is passed on, the 101st is refused, and the one in the
  next window is passed on again.\<close>

theorem limiter_fixed_window_witness:
  "(\<exists>c s1. req c = get_request ''/api/customers'' \<and>
      response_of sample_deps (get_request ''/api/customers'') (init_state 0)
        = fst (handle sample_deps (drop 6 app) None c s1) \<and>
      stages_of sample_deps (get_request ''/api/customers'') (init_state 0)
        = middleware @ fst (snd (handle sample_deps (drop 6 app) None c s1))) \<and>
   status (response_of sample_deps (get_request ''/api/customers'')
     (final_state sample_deps (replicate 100 (get_request ''/api/customers'')) (init_state 0))) = 429 \<and>
   content (response_of sample_deps (get_request ''/api/customers'')
     (final_state sample_deps (replicate 100 (get_request ''/api/customers'')) (init_state 0)))
     = ''Too many requests from this IP, please try again later.'' \<and>
   stages_of sample_deps (get_request ''/api/customers'')
     (final_state sample_deps (replicate 100 (get_request ''/api/customers'')) (init_state 0))
     = middleware \<and>
   (\<exists>c s1. req c = later_request ''/api/customers'' \<and>
      response_of sample_deps (later_request ''/api/customers'')
        (final_state sample_deps (replicate 100 (get_request ''/api/customers'')) (init_state 0))
        = fst (handle sample_deps (drop 6 app) None c s1) \<and>
      stages_of sample_deps (later_request ''/api/customers'')
        (final_state sample_deps (replicate 100 (get_request ''/api/customers'')) (init_state 0))
        = middleware @ fst (snd (handle sample_deps (drop 6 app) None c s1)))"
proof -
  let ?g = "get_request ''/api/customers''"
  let ?l = "later_request ''/api/customers''"
  have s0: "sorted (map rtime ([] @ [?g]))" and t0: "\<forall>x\<in>set ([] @ [?g]). 0 \<le> rtime x"
    and s1: "sorted (map rtime (replicate 100 ?g @ [?g]))"
    and t1: "\<forall>x\<in>set (replicate 100 ?g @ [?g]). 0 \<le> rtime x"
    and s2: "sorted (map rtime (replicate 100 ?g @ [?l]))"
    and t2: "\<forall>x\<in>set (replicate 100 ?g @ [?l]). 0 \<le> rtime x"
    by (simp_all add: sorted_append get_request_def later_request_def)
  have n1: "length (filter (\<lambda>x. rip x = rip ?g \<and> passes_upstream sample_deps x \<and>
          (rtime x - 0) div (15 * 60 * 1000) = (rtime ?g - 0) div (15 * 60 * 1000))
          (replicate 100 ?g)) = 100"
    using sample_get_passes [of "''/api/customers''"] by simp
  have n2: "length (filter (\<lambda>x. rip x = rip ?l \<and> passes_upstream sample_deps x \<and>
          (rtime x - 0) div (15 * 60 * 1000) = (rtime ?l - 0) div (15 * 60 * 1000))
          (replicate 100 ?g)) = 0"
    by (simp add: get_request_def later_request_def)
  from limiter_fixed_window [OF s0 t0 sample_get_passes]
    limiter_fixed_window [OF s1 t1 sample_get_passes]
    limiter_fixed_window [OF s2 t2 sample_later_passes]
  show ?thesis
    unfolding n1 n2 by simp
qed

text \<open>Claim C3 as stated fails for a request that an earlier stage answers:
  after 100 requests of a client in one window, the 101st, an \<^verbatim>\<open>OPTIONS\<close>
  request, is answered 204 by the cross-origin stage and not refused.\<close>

theorem options_request_not_limited:
  "status (response_of sample_deps (options_request ''/api/customers'')
     (final_state sample_deps (replicate 100 (get_request ''/api/customers'')) (init_state 0)))
   = 204"
proof -
  have "rmethod (options_request ''/api/customers'') = OPTIONS"
    by (simp add: options_request_def)
  from serve_options [OF this, of sample_deps
      "final_state sample_deps (replicate 100 (get_request ''/api/customers'')) (init_state 0)"]
  show ?thesis
    by (auto simp: response_of_def traced_fst split_beta finish_fields)
qed

section \<open>Routing\<close>

text \<open>A request that passes the middleware and matches no mounted prefix is
  handed to the framework's final handler with no failure pending.\<close>

lemma served_by_final_handler:
  assumes "passes_upstream d r"
    and "cnt (resetAll (rtime r) s) (rip r) < max_requests"
    and "\<not> match_path ''/api/customers'' (rpath r)"
    and "\<not> match_path ''/api/analytics'' (rpath r)"
  shows "\<exists>c s'. req c = r \<and>
     response_of d r s = fst (finalhandler None c s') \<and>
     stages_of d r s = middleware @ [Finalhandler]"
proof -
  from serve_pass [OF assms(1), of s] obtain c where c: "req c = r"
    and sv: "serve d r s = traced Helmet (traced Cors (traced Morgan (traced Json (traced Urlencoded
                    (handle d (drop 5 app) None c s)))))" by blast
  from limiter_under [of c s d] assms(2) c obtain c' s' where c': "req c' = r"
    and lm: "handle d (drop 5 app) None c s = traced Limiter (handle d (drop 6 app) None c' s')"
    by auto
  from handle_routes_none [of c' d s'] assms(3,4) c'
  have "handle d (drop 6 app) None c' s' =
         (case finalhandler None c' s' of (r, s'') \<Rightarrow> (r, [Finalhandler], s''))" by simp
  with sv lm have "response_of d r s = fst (finalhandler None c' s')"
    and "stages_of d r s = middleware @ [Finalhandler]"
    by (simp_all add: response_of_def stages_of_def traced_fst traced_tr middleware_def split_beta)
  with c' show ?thesis by blast
qed

lemma sample_unknown_conditions:
  "cnt (resetAll (rtime (get_request ''/api/unknown'')) (init_state 0))
          (rip (get_request ''/api/unknown'')) < max_requests"
  "\<not> match_path ''/api/customers'' (rpath (get_request ''/api/unknown''))"
  "\<not> match_path ''/api/analytics'' (rpath (get_request ''/api/unknown''))"
  by (simp_all add: cnt_def resetAll_def init_state_def get_request_def windowMs_def
      max_requests_def match_path_def lower_def)

text \<open>
  Claim C7, as the code has it. A request that arrives at the routes (it is
  not an \<^verbatim>\<open>OPTIONS\<close> request, the body parsers accept it, and its client is
  under the limit) and whose path matches neither mounted prefix is answered
  by the framework's final handler with status 404, after the six
  middleware stages and no router.
\<close>

theorem unmatched_path_not_found:
  assumes "passes_upstream d r"
    and "cnt (resetAll (rtime r) s) (rip r) < max_requests"
    and "\<not> match_path ''/api/customers'' (rpath r)"
    and "\<not> match_path ''/api/analytics'' (rpath r)"
  shows "status (response_of d r s) = 404 \<and>
         stages_of d r s = middleware @ [Finalhandler]"
proof -
  from served_by_final_handler [OF assms] obtain c s' where
    "response_of d r s = fst (finalhandler None c s')"
    "stages_of d r s = middleware @ [Finalhandler]" by blast
  then show ?thesis
    by (simp add: finalhandler_def finish_fields final_status_def)
qed

theorem unmatched_path_not_found_witness:
  "status (response_of sample_deps (get_request ''/api/unknown'') (init_state 0)) = 404 \<and>
   stages_of sample_deps (get_request ''/api/unknown'') (init_state 0) = middleware @ [Finalhandler]"
  using unmatched_path_not_found [OF sample_get_passes sample_unknown_conditions]
  by simp

text \<open>Claim C7 as stated fails for a request that a middleware stage answers
  first: the 101st request of a client in one window to an unmatched path
  is answered 429, not 404.\<close>

theorem unmatched_path_rate_limited:
  "status (response_of sample_deps (get_request ''/api/unknown'')
     (final_state sample_deps (replicate 100 (get_request ''/api/unknown'')) (init_state 0))) = 429"
proof -
  let ?r = "get_request ''/api/unknown''"
  have srt: "sorted (map rtime (replicate 100 ?r @ [?r]))"
    and t0: "\<forall>x\<in>set (replicate 100 ?r @ [?r]). 0 \<le> rtime x"
    by (simp_all add: sorted_append)
  have n100: "counted_in sample_deps 0 (window_of 0 ?r) (rip ?r) (replicate 100 ?r) = 100"
    using sample_get_passes [of "''/api/unknown''"] by (simp add: counted_in_def)
  from fixed_window [OF srt t0 sample_get_passes]
  show ?thesis
    unfolding n100 by simp
qed

section \<open>Order of the stages\<close>

lemma handle_subseq:
  "subseq (fst (snd (handle d ls err c s))) (map snd ls @ [Finalhandler])"
proof (induction ls arbitrary: err c s)
  case Nil
  then show ?case by (simp add: handle.simps split_beta)
next
  case (Cons l ls)
  obtain m st where l: "l = (m, st)" by (cases l)
  show ?case
  proof (cases "match_path m (rpath (req c))")
    case False
    with l Cons [of err c s] show ?thesis by (auto simp: handle.simps)
  next
    case True
    show ?thesis
    proof (cases "call d st err c s")
      case None
      with True l Cons [of err c s] show ?thesis by (auto simp: handle.simps)
    next
      case (Some a)
      obtain out s1 where a: "a = (out, s1)" by (cases a)
      show ?thesis
      proof (cases out)
        case (Next c')
        with True l Some a Cons [of None c' s1] show ?thesis
          by (simp add: handle.simps traced_tr)
      next
        case (NextErr e c')
        with True l Some a Cons [of "Some e" c' s1] show ?thesis
          by (simp add: handle.simps traced_tr)
      next
        case (Send c' b)
        with True l Some a show ?thesis
          by (simp add: handle.simps split_beta)
      qed
    qed
  qed
qed


lemma stages_passed:
  assumes "passes_upstream d r"
  shows "\<exists>tr. stages_of d r s = middleware @ tr"
proof -
  from serve_pass [OF assms, of s] obtain c where
    sv: "serve d r s = traced Helmet (traced Cors (traced Morgan (traced Json (traced Urlencoded
                    (handle d (drop 5 app) None c s)))))" by blast
  have "\<exists>tr. fst (snd (handle d (drop 5 app) None c s)) = Limiter # tr"
    using limiter_shape [of c s]
    by (auto simp: app_def handle_limiter traced_tr split_beta)
  with sv show ?thesis
    by (auto simp: stages_of_def traced_tr middleware_def)
qed

lemma stages_stopped:
  assumes "\<not> passes_upstream d r"
  shows "stages_of d r s = [Helmet, Cors] \<or>
   stages_of d r s = [Helmet, Cors, Morgan, Json, ErrorHandler] \<or>
   stages_of d r s = [Helmet, Cors, Morgan, Json, Urlencoded, ErrorHandler]"
proof (cases "rmethod r = OPTIONS")
  case True
  from serve_options [OF True, of d s] obtain c where
    "serve d r s = traced Helmet (case finish c [] s of (resp, s') \<Rightarrow> (resp, [Cors], s'))"
    by blast
  then show ?thesis
    by (simp add: stages_of_def traced_tr split_beta)
next
  case m: False
  show ?thesis
  proof (cases "json_ok d r")
    case jo: False
    from serve_json_fail [OF m jo, of s] obtain e c where
      "serve d r s = traced Helmet (traced Cors (traced Morgan (traced Json
                  (handle d (drop 4 app) (Some e) c s))))" by blast
    moreover have "(''/'', ErrorHandler) \<in> set (drop 4 app)"
      by (rule error_layer_ahead) simp
    ultimately show ?thesis
      using error_answer(3) [of "drop 4 app" d e c s]
      by (simp add: stages_of_def traced_tr)
  next
    case jo: True
    with assms m have fo: "\<not> form_ok r" by (simp add: passes_upstream_def)
    from serve_form_fail [OF m jo fo, of s] obtain e c where
      "serve d r s = traced Helmet (traced Cors (traced Morgan (traced Json (traced Urlencoded
                  (handle d (drop 5 app) (Some e) c s)))))" by blast
    moreover have "(''/'', ErrorHandler) \<in> set (drop 5 app)"
      by (rule error_layer_ahead) simp
    ultimately show ?thesis
      using error_answer(3) [of "drop 5 app" d e c s]
      by (simp add: stages_of_def traced_tr)
  qed
qed

text \<open>The conditions \<open>passes_upstream\<close> are exactly those under which the rate
  limiter runs for a request.\<close>

lemma reaches_limiter_iff: "Limiter \<in> set (stages_of d r s) \<longleftrightarrow> passes_upstream d r"
proof (cases "passes_upstream d r")
  case True
  with stages_passed [OF True, of s] show ?thesis
    by (auto simp: middleware_def)
next
  case False
  with stages_stopped [OF False, of s] show ?thesis
    by auto
qed

lemma stages_shape:
  "stages_of d r s = [Helmet, Cors] \<or>
   stages_of d r s = [Helmet, Cors, Morgan, Json, ErrorHandler] \<or>
   stages_of d r s = [Helmet, Cors, Morgan, Json, Urlencoded, ErrorHandler] \<or>
   (\<exists>tr. stages_of d r s = middleware @ tr)"
  using stages_passed [of d r s] stages_stopped [of d r s] by blast

text \<open>
  Claim C6. The stages that run for a request run in the declared order:
  the list of stages that ran is a subsequence of the declared sequence, so
  no stage runs twice and none runs before an earlier one. When a router or
  the final handler runs, the six middleware stages (security headers,
  cross-origin policy, access logger, the two body parsers, rate limiter)
  have all run before it, in that order.
\<close>

theorem stages_in_declared_order:
  "subseq (stages_of d r s)
     [Helmet, Cors, Morgan, Json, Urlencoded, Limiter, Customers, Analytics, ErrorHandler,
      Finalhandler] \<and>
   (\<forall>x\<in>set (stages_of d r s).
      x \<in> {Customers, Analytics, Finalhandler} \<longrightarrow>
      take 6 (stages_of d r s) = [Helmet, Cors, Morgan, Json, Urlencoded, Limiter])"
proof -
  have "subseq (stages_of d r s) (map snd app @ [Finalhandler])"
    unfolding stages_of_def serve_def by (rule handle_subseq)
  then have "subseq (stages_of d r s)
     [Helmet, Cors, Morgan, Json, Urlencoded, Limiter, Customers, Analytics, ErrorHandler,
      Finalhandler]"
    by (simp add: app_def)
  moreover have "\<forall>x\<in>set (stages_of d r s).
      x \<in> {Customers, Analytics, Finalhandler} \<longrightarrow>
      take 6 (stages_of d r s) = [Helmet, Cors, Morgan, Json, Urlencoded, Limiter]"
    using stages_shape [of d r s] by (auto simp: middleware_def)
  ultimately show ?thesis by blast
qed

lemma sample_customers_stages:
  "stages_of sample_deps (get_request ''/api/customers'') (init_state 0)
     = [Helmet, Cors, Morgan, Json, Urlencoded, Limiter, Customers]"
  by (simp add: stages_of_def serve_def app_def handle.simps new_ctx_def get_request_def
      sample_deps_def init_state_def match_path_def lower_def helmet_def cors_def morgan_def
      express_json_def express_urlencoded_def default_body_def limiter_def resetAll_def
      incr_def windowMs_def max_requests_def Let_def finish_def traced_def)

theorem stages_in_declared_order_witness:
  "Customers \<in> set (stages_of sample_deps (get_request ''/api/customers'') (init_state 0)) \<and>
   take 6 (stages_of sample_deps (get_request ''/api/customers'') (init_state 0))
     = [Helmet, Cors, Morgan, Json, Urlencoded, Limiter] \<and>
   subseq (stages_of sample_deps (get_request ''/api/customers'') (init_state 0))
     [Helmet, Cors, Morgan, Json, Urlencoded, Limiter, Customers, Analytics, ErrorHandler,
      Finalhandler]"
proof -
  have "Customers \<in> set (stages_of sample_deps (get_request ''/api/customers'') (init_state 0))"
    by (simp add: sample_customers_stages)
  with stages_in_declared_order [of sample_deps "get_request ''/api/customers''" "init_state 0"]
  show ?thesis by blast
qed

section \<open>Security headers\<close>














end
